theory Spec2Isabelle
  imports Main "HOL-Library.Sublist" "HOL-Library.List_Lexorder" "HOL-Library.Char_ord"
begin

section \<open>Data model of the glossary store\<close>

text \<open>
  A stored term is a Python dict with the keys of \<^verbatim>\<open>GlossaryTerm\<close>. It is modelled as
  a record. The keys that the code treats as nullable are options: \<^verbatim>\<open>category\<close>
  (\<^verbatim>\<open>search\<close> reads it with \<^verbatim>\<open>term.get("category")\<close>, so it may be missing or null
  in a loaded document) and the three \<^verbatim>\<open>Optional\<close> fields of \<^verbatim>\<open>GlossaryTermBase\<close>.
  The key \<^verbatim>\<open>id\<close> is the field \<open>term_id\<close>. A text is a Python \<^verbatim>\<open>str\<close>: a list of Unicode
  code points, each a natural number (a \<^verbatim>\<open>str\<close> may hold any code point below
  \<^verbatim>\<open>0x110000\<close>, the surrogates \<^verbatim>\<open>0xD800\<close> to \<^verbatim>\<open>0xDFFF\<close> included). \<open>lit\<close> turns a literal
  of ASCII characters into the text of their code points. Timestamps are the ISO texts
  produced by \<^verbatim>\<open>datetime.now().isoformat()\<close>, compared as texts (lexicographically).
  File names and the bytes of a file stay lists of 8-bit characters.
\<close>

type_synonym str = "nat list"

definition lit :: "string \<Rightarrow> str" where
  "lit s = map of_char s"

type_synonym timestamp = str

record glossary_term =
  term_id :: int
  title :: str
  "definition" :: str
  category :: "str option"
  examples :: "str list option"
  related_terms :: "str list option"
  source :: "str option"
  created_at :: timestamp
  updated_at :: timestamp

text \<open>
  Exceptions of the Python code are values: \<open>ValidationError\<close> (pydantic / FastAPI
  request validation, the 422 response), \<open>JSONDecodeError\<close> (\<^verbatim>\<open>json.load\<close> on a
  document that is not the expected structure) and \<open>OSError\<close> (opening or writing the
  backing file fails).
\<close>

datatype error = ValidationError | JSONDecodeError | OSError

text \<open>
  A validated \<^verbatim>\<open>GlossaryTermCreate\<close> object. Its constructor checks the length bounds
  of \<^verbatim>\<open>Field(...)\<close> and fills the default \<^verbatim>\<open>category="General"\<close> when the category is
  omitted (\<open>None\<close> in the third argument).
\<close>

record glossary_term_create =
  new_title :: str
  new_definition :: str
  new_category :: str
  new_examples :: "str list option"
  new_related_terms :: "str list option"
  new_source :: "str option"

definition GlossaryTermCreate ::
  "str \<Rightarrow> str \<Rightarrow> str option \<Rightarrow> str list option \<Rightarrow> str list option \<Rightarrow>
   str option \<Rightarrow> error + glossary_term_create" where
  "GlossaryTermCreate t d c e r s =
     (if length t < 1 \<or> 100 < length t \<or> length d < 10 \<or> 2000 < length d
      then Inl ValidationError
      else Inr \<lparr>new_title = t, new_definition = d,
                new_category = (case c of None \<Rightarrow> (lit ''General'') | Some v \<Rightarrow> v),
                new_examples = e, new_related_terms = r, new_source = s\<rparr>)"

text \<open>
  A \<^verbatim>\<open>GlossaryTermUpdate\<close> object as \<^verbatim>\<open>model_dump(exclude_unset=True)\<close> sees it: for each
  field, \<open>None\<close> when the field was not set in the request (the key is absent from
  \<^verbatim>\<open>update_data\<close>), \<open>Some None\<close> when it was set to null, \<open>Some (Some v)\<close> when it was
  set to the value \<open>v\<close>.
\<close>

record glossary_term_update =
  upd_title :: "str option option"
  upd_definition :: "str option option"
  upd_category :: "str option option"
  upd_examples :: "str list option option"
  upd_related_terms :: "str list option option"
  upd_source :: "str option option"

text \<open>
  The \<^verbatim>\<open>GlossaryDatabase\<close> object: \<open>glossary\<close> is \<^verbatim>\<open>self.data["glossary"]\<close>.
\<close>

record store =
  filepath :: string
  glossary :: "glossary_term list"
  next_id :: int

text \<open>
  The environment of the process. \<open>files\<close> is the file system (the text of every
  existing file). \<open>clock\<close> gives the results of the successive calls of
  \<^verbatim>\<open>datetime.now().isoformat()\<close> and \<open>ticks\<close> counts the calls made so far.
  \<open>faults\<close> gives the outcome of the successive attempts to write the backing file and
  \<open>writes\<close> counts the attempts made so far.
\<close>

datatype write_outcome =
    Written
  | OpenFailed
  | WriteFailed string

record world =
  files :: "string \<Rightarrow> string option"
  clock :: "nat \<Rightarrow> timestamp"
  ticks :: nat
  faults :: "nat \<Rightarrow> write_outcome"
  writes :: nat

definition now :: "world \<Rightarrow> timestamp \<times> world" where
  "now w = (clock w (ticks w), w\<lparr>ticks := Suc (ticks w)\<rparr>)"

section \<open>Loading and persisting\<close>

text \<open>
  \<^verbatim>\<open>json.dump\<close> and \<^verbatim>\<open>json.load\<close> belong to the Python library. They are parameters
  of the model: \<open>dump\<close> renders the collection as the text of the document
  (with \<^verbatim>\<open>ensure_ascii=False, indent=2\<close>), \<open>load\<close> parses a text and gives \<open>None\<close> when
  it raises.
\<close>

type_synonym dumper = "glossary_term list \<Rightarrow> string"
type_synonym loader = "string \<Rightarrow> glossary_term list option"

definition load_data :: "loader \<Rightarrow> string \<Rightarrow> world \<Rightarrow> error + glossary_term list" where
  "load_data load fp w =
     (case files w fp of
        None \<Rightarrow> Inr []
      | Some doc \<Rightarrow> (case load doc of None \<Rightarrow> Inl JSONDecodeError | Some g \<Rightarrow> Inr g))"

text \<open>
  \<^verbatim>\<open>open(self.filepath, 'w')\<close> followed by \<^verbatim>\<open>json.dump\<close>. When opening fails the file is
  as it was; when the dump fails after opening, the file holds what had been written.
\<close>

definition save_data :: "dumper \<Rightarrow> store \<Rightarrow> world \<Rightarrow> (error + unit) \<times> world" where
  "save_data dump db w =
     (case faults w (writes w) of
        Written \<Rightarrow>
          (Inr (), w\<lparr>files := (files w)(filepath db \<mapsto> dump (glossary db)),
                     writes := Suc (writes w)\<rparr>)
      | OpenFailed \<Rightarrow> (Inl OSError, w\<lparr>writes := Suc (writes w)\<rparr>)
      | WriteFailed partial \<Rightarrow>
          (Inl OSError, w\<lparr>files := (files w)(filepath db \<mapsto> partial),
                          writes := Suc (writes w)\<rparr>))"

text \<open>\<^verbatim>\<open>max(term["id"] for term in ...) + 1\<close>, or 1 for the empty collection.\<close>

fun get_next_id :: "glossary_term list \<Rightarrow> int" where
  "get_next_id [] = 1"
| "get_next_id (t # ts) = fold max (map term_id ts) (term_id t) + 1"

definition init :: "loader \<Rightarrow> string \<Rightarrow> world \<Rightarrow> error + store" where
  "init load fp w =
     (case load_data load fp w of
        Inl e \<Rightarrow> Inl e
      | Inr g \<Rightarrow> Inr \<lparr>filepath = fp, glossary = g, next_id = get_next_id g\<rparr>)"

section \<open>Reading operations\<close>

definition get_all :: "store \<Rightarrow> glossary_term list" where
  "get_all db = glossary db"

fun get_by_id_loop :: "glossary_term list \<Rightarrow> int \<Rightarrow> glossary_term option" where
  "get_by_id_loop [] tid = None"
| "get_by_id_loop (t # ts) tid = (if term_id t = tid then Some t else get_by_id_loop ts tid)"

definition get_by_id :: "store \<Rightarrow> int \<Rightarrow> glossary_term option" where
  "get_by_id db tid = get_by_id_loop (glossary db) tid"

text \<open>
  The position of the first term with the given id: the index \<^verbatim>\<open>i\<close> at which the loop of
  \<^verbatim>\<open>delete\<close> stops, and the position of the dict that \<^verbatim>\<open>get_by_id\<close> returns to
  \<^verbatim>\<open>update\<close>, which mutates it in place.
\<close>

fun index_of :: "int \<Rightarrow> glossary_term list \<Rightarrow> nat option" where
  "index_of tid [] = None"
| "index_of tid (t # ts) =
     (if term_id t = tid then Some 0 else map_option Suc (index_of tid ts))"




section \<open>Mutating operations\<close>

text \<open>\<^verbatim>\<open>x or d\<close> for an optional list or text: \<open>d\<close> when \<open>x\<close> is null or empty.\<close>

definition py_or :: "'a list option \<Rightarrow> 'a list \<Rightarrow> 'a list" where
  "py_or x d = (case x of None \<Rightarrow> d | Some v \<Rightarrow> (if v = [] then d else v))"

definition create ::
  "dumper \<Rightarrow> glossary_term_create \<Rightarrow> store \<Rightarrow> world \<Rightarrow> (error + glossary_term) \<times> store \<times> world"
  where
  "create dump term_data db w =
     (let (t1, w1) = now w;
          (t2, w2) = now w1;
          new_term = \<lparr>term_id = next_id db,
                      title = new_title term_data,
                      definition = new_definition term_data,
                      category = Some (new_category term_data),
                      examples = Some (py_or (new_examples term_data) []),
                      related_terms = Some (py_or (new_related_terms term_data) []),
                      source = Some (py_or (new_source term_data) []),
                      created_at = t1,
                      updated_at = t2\<rparr>;
          db1 = db\<lparr>glossary := glossary db @ [new_term]\<rparr>;
          db2 = db1\<lparr>next_id := next_id db1 + 1\<rparr>;
          (r, w3) = save_data dump db2 w2
      in (case r of Inl e \<Rightarrow> (Inl e, db2, w3) | Inr u \<Rightarrow> (Inr new_term, db2, w3)))"

text \<open>
  One pass of the loop body of \<^verbatim>\<open>update\<close> for one key: nothing happens when the key is
  not in \<^verbatim>\<open>update_data\<close> or its value is \<^verbatim>\<open>None\<close>; otherwise the value is assigned.
\<close>

fun assign :: "'a option option \<Rightarrow> 'a \<Rightarrow> 'a" where
  "assign None old = old"
| "assign (Some None) old = old"
| "assign (Some (Some v)) old = v"

definition apply_update :: "glossary_term_update \<Rightarrow> glossary_term \<Rightarrow> glossary_term" where
  "apply_update u t =
     t\<lparr>title := assign (upd_title u) (title t),
       definition := assign (upd_definition u) (definition t),
       category := assign (map_option (map_option Some) (upd_category u)) (category t),
       examples := assign (map_option (map_option Some) (upd_examples u)) (examples t),
       related_terms :=
         assign (map_option (map_option Some) (upd_related_terms u)) (related_terms t),
       source := assign (map_option (map_option Some) (upd_source u)) (source t)\<rparr>"

definition update ::
  "dumper \<Rightarrow> int \<Rightarrow> glossary_term_update \<Rightarrow> store \<Rightarrow> world \<Rightarrow>
   (error + glossary_term option) \<times> store \<times> world" where
  "update dump tid term_data db w =
     (case index_of tid (glossary db) of
        None \<Rightarrow> (Inr None, db, w)
      | Some i \<Rightarrow>
          (let term1 = apply_update term_data (glossary db ! i);
               (t, w1) = now w;
               term2 = term1\<lparr>updated_at := t\<rparr>;
               db1 = db\<lparr>glossary := (glossary db)[i := term2]\<rparr>;
               (r, w2) = save_data dump db1 w1
           in (case r of Inl e \<Rightarrow> (Inl e, db1, w2) | Inr u \<Rightarrow> (Inr (Some term2), db1, w2))))"

text \<open>\<^verbatim>\<open>self.data["glossary"].pop(i)\<close> at an index in range.\<close>

definition pop :: "nat \<Rightarrow> 'a list \<Rightarrow> 'a list" where
  "pop i xs = take i xs @ drop (Suc i) xs"

definition delete :: "dumper \<Rightarrow> int \<Rightarrow> store \<Rightarrow> world \<Rightarrow> (error + bool) \<times> store \<times> world" where
  "delete dump tid db w =
     (case index_of tid (glossary db) of
        None \<Rightarrow> (Inr False, db, w)
      | Some i \<Rightarrow>
          (let db1 = db\<lparr>glossary := pop i (glossary db)\<rparr>;
               (r, w1) = save_data dump db1 w
           in (case r of Inl e \<Rightarrow> (Inl e, db1, w1) | Inr u \<Rightarrow> (Inr True, db1, w1))))"

section \<open>The list handler\<close>

text \<open>
  \<^verbatim>\<open>xs[i:j]\<close>: each bound is clamped into the list as Python does (a negative bound
  counts from the end), and the slice is empty when the bounds cross.
\<close>

definition slice_index :: "nat \<Rightarrow> int \<Rightarrow> nat" where
  "slice_index n i = (if i < 0 then nat (max 0 (int n + i)) else min n (nat i))"

definition py_slice :: "'a list \<Rightarrow> int \<Rightarrow> int \<Rightarrow> 'a list" where
  "py_slice xs i j =
     (let a = slice_index (length xs) i; b = slice_index (length xs) j
      in take (b - a) (drop a xs))"

text \<open>
  The \<^verbatim>\<open>data\<close> of the response of \<^verbatim>\<open>get_all_terms\<close> (its \<^verbatim>\<open>success\<close> is always true and
  its message repeats the two lengths). \<^verbatim>\<open>Query(0, ge=0)\<close> and
  \<^verbatim>\<open>Query(100, ge=1, le=1000)\<close> reject the request before the handler runs.
\<close>

record page =
  page_total :: nat
  page_skip :: int
  page_limit :: int
  page_items :: "glossary_term list"

definition get_all_terms :: "store \<Rightarrow> int \<Rightarrow> int \<Rightarrow> error + page" where
  "get_all_terms db skip limit =
     (if skip < 0 \<or> limit < 1 \<or> 1000 < limit then Inl ValidationError
      else (let all_terms = get_all db;
                paginated_terms = py_slice all_terms skip (skip + limit)
            in Inr \<lparr>page_total = length all_terms, page_skip = skip, page_limit = limit,
                     page_items = paginated_terms\<rparr>))"

section \<open>A process lifetime\<close>

text \<open>
  The mutating calls that reach the store during one process lifetime, and what each
  returns. An exception ends the call, not the process: the next call runs on the
  state the failed one left.
\<close>

datatype request =
    Create glossary_term_create
  | Update int glossary_term_update
  | Delete int

datatype response =
    Created glossary_term
  | Updated "glossary_term option"
  | Deleted bool

definition step ::
  "dumper \<Rightarrow> request \<Rightarrow> store \<Rightarrow> world \<Rightarrow> (error + response) \<times> store \<times> world" where
  "step dump rq db w =
     (case rq of
        Create term_data \<Rightarrow>
          (case create dump term_data db w of (r, db', w') \<Rightarrow> (map_sum id Created r, db', w'))
      | Update tid term_data \<Rightarrow>
          (case update dump tid term_data db w of (r, db', w') \<Rightarrow> (map_sum id Updated r, db', w'))
      | Delete tid \<Rightarrow>
          (case delete dump tid db w of (r, db', w') \<Rightarrow> (map_sum id Deleted r, db', w')))"

fun run ::
  "dumper \<Rightarrow> request list \<Rightarrow> store \<Rightarrow> world \<Rightarrow> (error + response) list \<times> store \<times> world" where
  "run dump [] db w = ([], db, w)"
| "run dump (rq # rqs) db w =
     (case step dump rq db w of
        (r, db1, w1) \<Rightarrow> (case run dump rqs db1 w1 of (rs, db2, w2) \<Rightarrow> (r # rs, db2, w2)))"

text \<open>The ids that the successful calls of \<^verbatim>\<open>create\<close> returned, in order.\<close>

fun created_ids :: "(error + response) list \<Rightarrow> int list" where
  "created_ids [] = []"
| "created_ids (Inr (Created t) # rs) = term_id t # created_ids rs"
| "created_ids (r # rs) = created_ids rs"

section \<open>Notions of the specification\<close>



text \<open>The partial update that sets no field.\<close>

definition no_update :: glossary_term_update where
  "no_update = \<lparr>upd_title = None, upd_definition = None, upd_category = None,
                 upd_examples = None, upd_related_terms = None, upd_source = None\<rparr>"

text \<open>
  Per-field replacement as the specification words it: a field present in the partial
  update takes the given value (null is \<open>None\<close>), an absent field keeps its value.
\<close>

definition replaced :: "'a option option \<Rightarrow> 'a option \<Rightarrow> 'a option \<Rightarrow> bool" where
  "replaced given old new = (case given of None \<Rightarrow> new = old | Some v \<Rightarrow> new = v)"

definition replaces_present ::
  "glossary_term_update \<Rightarrow> glossary_term \<Rightarrow> glossary_term \<Rightarrow> bool" where
  "replaces_present u t t' =
     (replaced (upd_title u) (Some (title t)) (Some (title t')) \<and>
      replaced (upd_definition u) (Some (definition t)) (Some (definition t')) \<and>
      replaced (upd_category u) (category t) (category t') \<and>
      replaced (upd_examples u) (examples t) (examples t') \<and>
      replaced (upd_related_terms u) (related_terms t) (related_terms t') \<and>
      replaced (upd_source u) (source t) (source t'))"

text \<open>
  Memory and disk agree: the backing file holds the dump of the collection, or there is
  no file and the collection is empty.
\<close>

definition in_sync :: "dumper \<Rightarrow> store \<Rightarrow> world \<Rightarrow> bool" where
  "in_sync dump db w =
     (files w (filepath db) = Some (dump (glossary db)) \<or>
      (files w (filepath db) = None \<and> glossary db = []))"

text \<open>Every id of the collection is below the next assignable id.\<close>

definition ids_below :: "store \<Rightarrow> bool" where
  "ids_below db = (\<forall>t\<in>set (glossary db). term_id t < next_id db)"

text \<open>The clock never runs backwards.\<close>

definition clock_monotone :: "world \<Rightarrow> bool" where
  "clock_monotone w = (\<forall>i j. i \<le> j \<longrightarrow> clock w i \<le> clock w j)"

text \<open>
  Every record was created no later than it was last updated, and no later than the
  next reading of the clock.
\<close>

definition times_ok :: "store \<Rightarrow> world \<Rightarrow> bool" where
  "times_ok db w =
     (\<forall>t\<in>set (glossary db). created_at t \<le> updated_at t \<and> created_at t \<le> clock w (ticks w))"

section \<open>Example data\<close>

definition demo_term :: glossary_term where
  "demo_term = \<lparr>term_id = 1, title = (lit ''Oracle''),
                 definition = (lit ''A service that feeds external data to a blockchain''),
                 category = Some (lit ''Infrastructure''), examples = Some [], related_terms = Some [],
                 source = Some (lit ''wiki''), created_at = (lit ''2024-01-01T00:00:00''),
                 updated_at = (lit ''2024-01-01T00:00:00'')\<rparr>"

definition demo_db :: store where
  "demo_db = \<lparr>filepath = ''glossary_data.json'', glossary = [demo_term], next_id = 2\<rparr>"

definition demo_clock :: "nat \<Rightarrow> timestamp" where
  "demo_clock n = (if n < 2 then (lit ''2024-01-01T00:00:00'') else (lit ''2024-01-01T00:00:01''))"

text \<open>A stand-in for \<^verbatim>\<open>json.dump\<close> in the examples: it writes one byte for each record.\<close>

definition demo_dump :: dumper where
  "demo_dump g = replicate (length g) CHR ''t''"

text \<open>A stand-in for \<^verbatim>\<open>json.load\<close> in the examples: it knows one document.\<close>

definition demo_load :: loader where
  "demo_load doc = (if doc = ''t'' then Some [demo_term] else None)"


text \<open>
  A world in which two clock readings have been taken and every write succeeds, and
  one in which opening the backing file fails.
\<close>

definition demo_world :: world where
  "demo_world = \<lparr>files = Map.empty, clock = demo_clock, ticks = 2,
                  faults = (\<lambda>n. Written), writes = 0\<rparr>"

definition faulty_world :: world where
  "faulty_world = \<lparr>files = Map.empty, clock = demo_clock, ticks = 2,
                    faults = (\<lambda>n. OpenFailed), writes = 0\<rparr>"

definition null_source_update :: glossary_term_update where
  "null_source_update = no_update\<lparr>upd_source := Some None\<rparr>"

definition demo_create :: glossary_term_create where
  "demo_create = \<lparr>new_title = (lit ''Gas''), new_definition = (lit ''The fee paid for a transaction''),
                   new_category = (lit ''General''), new_examples = None, new_related_terms = None,
                   new_source = None\<rparr>"

text \<open>The create input of the example record.\<close>

definition demo_term_again :: glossary_term_create where
  "demo_term_again = \<lparr>new_title = (lit ''Oracle''),
       new_definition = (lit ''A service that feeds external data to a blockchain''),
       new_category = (lit ''Infrastructure''), new_examples = None, new_related_terms = None,
       new_source = Some (lit ''wiki'')\<rparr>"

text \<open>The store and the world of a process that starts without a backing file.\<close>

definition empty_db :: store where
  "empty_db = \<lparr>filepath = ''glossary_data.json'', glossary = [], next_id = 1\<rparr>"

definition fresh_world :: world where
  "fresh_world = \<lparr>files = Map.empty, clock = demo_clock, ticks = 0,
                   faults = (\<lambda>n. Written), writes = 0\<rparr>"

text \<open>A store of 25 records.\<close>

definition demo_db25 :: store where
  "demo_db25 = \<lparr>filepath = ''glossary_data.json'',
                  glossary = map (\<lambda>i. demo_term\<lparr>term_id := int i\<rparr>) [1..<26],
                  next_id = 26\<rparr>"

definition retitle_update :: glossary_term_update where
  "retitle_update = no_update\<lparr>upd_title := Some (Some (lit ''Oracle service''))\<rparr>"

text \<open>A world whose backing file holds the dump of the example store.\<close>

definition synced_world :: world where
  "synced_world = \<lparr>files = [''glossary_data.json'' \<mapsto> ''t''], clock = demo_clock,
                    ticks = 2, faults = (\<lambda>n. Written), writes = 0\<rparr>"

definition demo_requests :: "request list" where
  "demo_requests = [Create demo_create, Delete 1, Update 2 retitle_update, Create demo_create]"

text \<open>
  A clock that is set back: \<^verbatim>\<open>datetime.now()\<close> gives the local wall-clock time, which
  repeats an hour when daylight saving time ends. The first two readings are taken at
  02:30, the later ones after the clock went back from 03:00 to 02:00.
\<close>

definition dst_clock :: "nat \<Rightarrow> timestamp" where
  "dst_clock n = (if n < 2 then lit ''2024-10-27T02:30:00'' else lit ''2024-10-27T02:15:00'')"

definition dst_world :: world where
  "dst_world = \<lparr>files = Map.empty, clock = dst_clock, ticks = 0,
                 faults = (\<lambda>n. Written), writes = 0\<rparr>"

definition dst_term :: glossary_term where
  "dst_term = \<lparr>term_id = 1, title = lit ''Oracle service'',
                definition = lit ''A service that feeds external data to a blockchain'',
                category = Some (lit ''Infrastructure''), examples = Some [],
                related_terms = Some [], source = Some (lit ''wiki''),
                created_at = lit ''2024-10-27T02:30:00'',
                updated_at = lit ''2024-10-27T02:15:00''\<rparr>"

text \<open>
  A world whose clock stands at an earlier local time than the timestamps of the example
  record (the document was written where the local time was later).
\<close>

definition west_world :: world where
  "west_world = \<lparr>files = Map.empty, clock = (\<lambda>n. lit ''2023-12-31T18:00:00''), ticks = 0,
                  faults = (\<lambda>n. Written), writes = 0\<rparr>"

section \<open>Texts\<close>

lemma length_lit [simp]: "length (lit s) = length s"
  by (simp add: lit_def)

section \<open>Lookup by id\<close>

lemma index_of_None: "index_of tid g = None \<longleftrightarrow> tid \<notin> term_id ` set g"
  by (induction g) auto

lemma index_of_Some:
  "index_of tid g = Some i \<Longrightarrow>
     i < length g \<and> term_id (g ! i) = tid \<and> (\<forall>j<i. term_id (g ! j) \<noteq> tid)"
proof (induction g arbitrary: i)
  case Nil
  then show ?case by simp
next
  case (Cons t ts)
  show ?case
  proof (cases "term_id t = tid")
    case True
    with Cons.prems show ?thesis by simp
  next
    case False
    with Cons.prems obtain k where k: "index_of tid ts = Some k" "i = Suc k"
      by auto
    from Cons.IH [OF k(1)] False k(2) show ?thesis
      by (auto simp: nth_Cons split: nat.splits)
  qed
qed

text \<open>The dict that \<^verbatim>\<open>get_by_id\<close> returns is the list element at \<open>index_of\<close>.\<close>

lemma get_by_id_loop_index: "get_by_id_loop g tid = map_option ((!) g) (index_of tid g)"
  by (induction g) (auto simp: option.map_comp comp_def)

lemma get_by_id_index:
  assumes "get_by_id db tid = Some t"
  shows "\<exists>i. index_of tid (glossary db) = Some i \<and> glossary db ! i = t"
  using assms by (auto simp: get_by_id_def get_by_id_loop_index)

lemma index_of_ids: "map term_id g = map term_id g' \<Longrightarrow> index_of tid g = index_of tid g'"
proof (induction g arbitrary: g')
  case Nil
  then show ?case by simp
next
  case (Cons t ts)
  then obtain t' ts' where g': "g' = t' # ts'" by (cases g') auto
  with Cons.prems have "term_id t = term_id t'" "map term_id ts = map term_id ts'" by auto
  with Cons.IH [of ts'] g' show ?case by simp
qed

lemma ids_pop:
  assumes "index_of tid g = Some i"
  shows "map term_id g = map term_id (take i g) @ tid # map term_id (drop (Suc i) g)"
proof -
  from index_of_Some [OF assms] have i: "i < length g" "term_id (g ! i) = tid" by auto
  then show ?thesis
    by (metis Cons_nth_drop_Suc append_take_drop_id list.simps(9) map_append)
qed

lemma ids_pop_distinct:
  assumes "distinct (map term_id g)" "index_of tid g = Some i"
  shows "tid \<notin> term_id ` set (pop i g)"
proof -
  from assms(1) have "distinct (map term_id (take i g) @ tid # map term_id (drop (Suc i) g))"
    by (simp only: ids_pop [OF assms(2), symmetric])
  then have "tid \<notin> set (map term_id (take i g)) \<and> tid \<notin> set (map term_id (drop (Suc i) g))"
    by auto
  then show ?thesis by (auto simp: pop_def)
qed

section \<open>Delete\<close>

text \<open>
  Claim C6. Deleting an id that no record of the collection has returns \<open>False\<close> (no
  error) and changes nothing, so repeating it returns \<open>False\<close> again. When the id is
  present and the write succeeds, the first record with that id is removed, the other
  records stay in their order, the remaining collection is written to the backing file
  and the result is \<open>True\<close>. When the ids are distinct, a delete that follows a successful
  delete of the same id returns \<open>False\<close>.
\<close>

theorem delete_spec:
  "(tid \<notin> term_id ` set (glossary db) \<longrightarrow> delete dump tid db w = (Inr False, db, w)) \<and>
   (tid \<in> term_id ` set (glossary db) \<and> faults w (writes w) = Written \<longrightarrow>
      (\<exists>i<length (glossary db).
          term_id (glossary db ! i) = tid \<and> (\<forall>j<i. term_id (glossary db ! j) \<noteq> tid) \<and>
          delete dump tid db w =
            (Inr True,
             db\<lparr>glossary := take i (glossary db) @ drop (Suc i) (glossary db)\<rparr>,
             w\<lparr>files := (files w)(filepath db \<mapsto>
                          dump (take i (glossary db) @ drop (Suc i) (glossary db))),
               writes := Suc (writes w)\<rparr>))) \<and>
   (distinct (map term_id (glossary db)) \<and> delete dump tid db w = (Inr True, db', w') \<longrightarrow>
      delete dump tid db' w' = (Inr False, db', w'))"
proof (intro conjI impI)
  assume "tid \<notin> term_id ` set (glossary db)"
  then have "index_of tid (glossary db) = None" by (simp add: index_of_None)
  then show "delete dump tid db w = (Inr False, db, w)" by (simp add: delete_def)
next
  assume a: "tid \<in> term_id ` set (glossary db) \<and> faults w (writes w) = Written"
  then obtain i where i: "index_of tid (glossary db) = Some i"
    using index_of_None [of tid "glossary db"] by (cases "index_of tid (glossary db)") auto
  from index_of_Some [OF i] a i
  show "\<exists>i<length (glossary db).
          term_id (glossary db ! i) = tid \<and> (\<forall>j<i. term_id (glossary db ! j) \<noteq> tid) \<and>
          delete dump tid db w =
            (Inr True,
             db\<lparr>glossary := take i (glossary db) @ drop (Suc i) (glossary db)\<rparr>,
             w\<lparr>files := (files w)(filepath db \<mapsto>
                          dump (take i (glossary db) @ drop (Suc i) (glossary db))),
               writes := Suc (writes w)\<rparr>)"
    by (intro exI [of _ i]) (simp add: delete_def save_data_def pop_def)
next
  assume a: "distinct (map term_id (glossary db)) \<and> delete dump tid db w = (Inr True, db', w')"
  then obtain i where i: "index_of tid (glossary db) = Some i"
    by (cases "index_of tid (glossary db)") (auto simp: delete_def)
  from a i have "glossary db' = pop i (glossary db)"
    by (auto simp: delete_def Let_def split: prod.splits sum.splits)
  with ids_pop_distinct [OF _ i] a have "tid \<notin> term_id ` set (glossary db')" by simp
  then have "index_of tid (glossary db') = None" by (simp add: index_of_None)
  then show "delete dump tid db' w' = (Inr False, db', w')" by (simp add: delete_def)
qed

theorem delete_spec_witness:
  "7 \<notin> term_id ` set (glossary demo_db) \<and>
   delete demo_dump 7 demo_db demo_world = (Inr False, demo_db, demo_world) \<and>
   1 \<in> term_id ` set (glossary demo_db) \<and> faults demo_world (writes demo_world) = Written \<and>
   distinct (map term_id (glossary demo_db)) \<and>
   delete demo_dump 1 demo_db demo_world =
     (Inr True, demo_db\<lparr>glossary := []\<rparr>,
      demo_world\<lparr>files := [''glossary_data.json'' \<mapsto> []], writes := 1\<rparr>) \<and>
   delete demo_dump 1 (demo_db\<lparr>glossary := []\<rparr>)
       (demo_world\<lparr>files := [''glossary_data.json'' \<mapsto> []], writes := 1\<rparr>) =
     (Inr False, demo_db\<lparr>glossary := []\<rparr>,
      demo_world\<lparr>files := [''glossary_data.json'' \<mapsto> []], writes := 1\<rparr>)"
proof -
  have h: "7 \<notin> term_id ` set (glossary demo_db)"
          "1 \<in> term_id ` set (glossary demo_db) \<and> faults demo_world (writes demo_world) = Written"
          "distinct (map term_id (glossary demo_db))"
    by (simp_all add: demo_db_def demo_term_def demo_world_def)
  have d: "delete demo_dump 1 demo_db demo_world =
     (Inr True, demo_db\<lparr>glossary := []\<rparr>,
      demo_world\<lparr>files := [''glossary_data.json'' \<mapsto> []], writes := 1\<rparr>)"
    by (simp add: delete_def save_data_def pop_def demo_db_def demo_term_def demo_world_def
        demo_dump_def)
  from delete_spec [of 7 demo_db demo_dump demo_world] h(1)
  have a: "delete demo_dump 7 demo_db demo_world = (Inr False, demo_db, demo_world)"
    by blast
  from delete_spec [of 1 demo_db demo_dump demo_world "demo_db\<lparr>glossary := []\<rparr>"
      "demo_world\<lparr>files := [''glossary_data.json'' \<mapsto> []], writes := 1\<rparr>"] h(3) d
  have b: "delete demo_dump 1 (demo_db\<lparr>glossary := []\<rparr>)
       (demo_world\<lparr>files := [''glossary_data.json'' \<mapsto> []], writes := 1\<rparr>) =
     (Inr False, demo_db\<lparr>glossary := []\<rparr>,
      demo_world\<lparr>files := [''glossary_data.json'' \<mapsto> []], writes := 1\<rparr>)"
    by blast
  from h a b d show ?thesis by blast
qed

section \<open>Create\<close>

lemma py_or_empty: "py_or x [] = (case x of None \<Rightarrow> [] | Some v \<Rightarrow> v)"
  by (simp add: py_or_def split: option.splits)

text \<open>
  Claim C7. When the write succeeds, \<open>create\<close> returns the new record: its id is the
  next id, \<open>created_at\<close> and \<open>updated_at\<close> are the two readings of the clock that the
  call takes, absent examples and related terms become the empty list and an absent
  source the empty text. The record is appended at the end of the collection, the next
  id advances by one and the whole collection is written to the backing file. A
  \<^verbatim>\<open>GlossaryTermCreate\<close> built without a category has the category \<open>''General''\<close>.
\<close>

theorem create_spec:
  assumes "faults w (writes w) = Written"
  shows "\<exists>new_term db' w'.
    create dump term_data db w = (Inr new_term, db', w') \<and>
    new_term = \<lparr>term_id = next_id db,
                  title = new_title term_data,
                  definition = new_definition term_data,
                  category = Some (new_category term_data),
                  examples = Some (case new_examples term_data of None \<Rightarrow> [] | Some v \<Rightarrow> v),
                  related_terms =
                    Some (case new_related_terms term_data of None \<Rightarrow> [] | Some v \<Rightarrow> v),
                  source = Some (case new_source term_data of None \<Rightarrow> [] | Some v \<Rightarrow> v),
                  created_at = clock w (ticks w),
                  updated_at = clock w (Suc (ticks w))\<rparr> \<and>
    glossary db' = glossary db @ [new_term] \<and>
    next_id db' = next_id db + 1 \<and>
    filepath db' = filepath db \<and>
    files w' = (files w)(filepath db \<mapsto> dump (glossary db @ [new_term])) \<and>
    (length t \<in> {1..100} \<and> length d \<in> {10..2000} \<longrightarrow>
       (\<exists>td. GlossaryTermCreate t d None e r s = Inr td \<and> new_category td = (lit ''General'')))"
  using assms
  by (simp add: create_def now_def save_data_def Let_def py_or_empty GlossaryTermCreate_def)

theorem create_spec_witness:
  "faults demo_world (writes demo_world) = Written \<and>
   length (lit ''Gas'') \<in> {1..100} \<and> length (lit ''The fee paid for a transaction'') \<in> {10..2000} \<and>
   (\<exists>new_term db' w'.
      create demo_dump demo_create demo_db demo_world = (Inr new_term, db', w') \<and>
      term_id new_term = 2 \<and> examples new_term = Some [] \<and> source new_term = Some [] \<and>
      glossary db' = [demo_term, new_term]) \<and>
   (\<exists>td. GlossaryTermCreate (lit ''Gas'') (lit ''The fee paid for a transaction'') None None None None =
            Inr td \<and> new_category td = (lit ''General''))"
proof -
  have h: "faults demo_world (writes demo_world) = Written"
    by (simp add: demo_world_def)
  have l: "length (lit ''Gas'') \<in> {1..100} \<and> length (lit ''The fee paid for a transaction'') \<in> {10..2000}"
    by simp
  from create_spec [OF h, of demo_dump demo_create demo_db "(lit ''Gas'')"
      "(lit ''The fee paid for a transaction'')" None None None] l
  obtain new_term db' w' where
    c: "create demo_dump demo_create demo_db demo_world = (Inr new_term, db', w')"
       "term_id new_term = next_id demo_db"
       "examples new_term = Some (case new_examples demo_create of None \<Rightarrow> [] | Some v \<Rightarrow> v)"
       "source new_term = Some (case new_source demo_create of None \<Rightarrow> [] | Some v \<Rightarrow> v)"
       "glossary db' = glossary demo_db @ [new_term]"
       "\<exists>td. GlossaryTermCreate (lit ''Gas'') (lit ''The fee paid for a transaction'') None None None None =
            Inr td \<and> new_category td = (lit ''General'')"
    by auto
  from c have "create demo_dump demo_create demo_db demo_world = (Inr new_term, db', w') \<and>
      term_id new_term = 2 \<and> examples new_term = Some [] \<and> source new_term = Some [] \<and>
      glossary db' = [demo_term, new_term]"
    by (simp add: demo_db_def demo_create_def)
  with h l c(6) show ?thesis by blast
qed

section \<open>Update\<close>

lemma term_id_apply_update [simp]: "term_id (apply_update u t) = term_id t"
  by (simp add: apply_update_def)

lemma created_at_apply_update [simp]: "created_at (apply_update u t) = created_at t"
  by (simp add: apply_update_def)

lemma updated_at_apply_update [simp]: "updated_at (apply_update u t) = updated_at t"
  by (simp add: apply_update_def)

text \<open>
  What \<open>update\<close> does when the id is found: the record at the index is replaced in
  memory whether or not the write succeeds, and the result is the new record or the
  write error.
\<close>

lemma update_found:
  fixes u :: glossary_term_update and w :: world and db :: store
  assumes "index_of tid (glossary db) = Some i"
  defines "t' \<equiv> (apply_update u (glossary db ! i))\<lparr>updated_at := clock w (ticks w)\<rparr>"
  shows "\<exists>r w'. update dump tid u db w = (r, db\<lparr>glossary := (glossary db)[i := t']\<rparr>, w') \<and>
           (r = Inr (Some t') \<or> r = Inl OSError) \<and>
           (faults w (writes w) = Written \<longrightarrow> r = Inr (Some t')) \<and>
           (faults w (writes w) \<noteq> Written \<longrightarrow> r = Inl OSError) \<and>
           get_by_id (db\<lparr>glossary := (glossary db)[i := t']\<rparr>) tid = Some t'"
proof -
  from index_of_Some [OF assms(1)]
  have i: "i < length (glossary db)" "term_id (glossary db ! i) = tid"
    by auto
  have "map term_id ((glossary db)[i := t']) = map term_id (glossary db)"
    using i by (simp add: t'_def map_update list_update_same_conv)
  then have "index_of tid ((glossary db)[i := t']) = Some i"
    using index_of_ids assms(1) by metis
  then have g: "get_by_id (db\<lparr>glossary := (glossary db)[i := t']\<rparr>) tid = Some t'"
    using i by (simp add: get_by_id_def get_by_id_loop_index)
  show ?thesis
    using assms(1) g
    by (cases "faults w (writes w)")
       (simp_all add: update_def now_def save_data_def Let_def t'_def)
qed

lemma assign_keeps_value:
  "old \<noteq> None \<Longrightarrow> assign (map_option (map_option Some) x) old \<noteq> None"
proof (cases x)
  case None
  assume "old \<noteq> None"
  with None show ?thesis by simp
next
  case (Some y)
  assume "old \<noteq> None"
  with Some show ?thesis by (cases y) simp_all
qed

text \<open>
  Claim C2, as stated, fails: a field that is present in the partial update with the
  value null is not replaced by null. Updating the source of the example record to null
  returns the record with its source unchanged.
\<close>

theorem update_null_counterexample:
  "fst (update demo_dump 1 null_source_update demo_db demo_world) =
     Inr (Some (demo_term\<lparr>updated_at := (lit ''2024-01-01T00:00:01'')\<rparr>)) \<and>
   \<not> replaces_present null_source_update demo_term
        (demo_term\<lparr>updated_at := (lit ''2024-01-01T00:00:01'')\<rparr>)"
  by (simp add: update_def demo_db_def demo_term_def demo_world_def demo_clock_def demo_dump_def
      null_source_update_def no_update_def apply_update_def now_def save_data_def
      replaces_present_def replaced_def Let_def)

text \<open>
  Claim C2, amended. For every id that \<open>get_by_id\<close> finds and every partial update,
  \<open>update\<close> replaces each field that is present with a non-null value by that value
  (the whole value, also for the list-valued fields), leaves every field that is absent
  from the partial update as it was, keeps the id and \<open>created_at\<close>, and sets
  \<open>updated_at\<close> to the reading of the clock whatever the fields are; the updated record
  is the one stored under the id, and it is returned when the write succeeds. With the
  empty partial update only \<open>updated_at\<close> changes.
\<close>

theorem update_spec:
  assumes "get_by_id db tid = Some t"
  shows "\<exists>r db' w' t'.
     update dump tid u db w = (r, db', w') \<and> get_by_id db' tid = Some t' \<and>
     (faults w (writes w) = Written \<longrightarrow> r = Inr (Some t')) \<and>
     (\<forall>v. upd_title u = Some (Some v) \<longrightarrow> title t' = v) \<and>
     (\<forall>v. upd_definition u = Some (Some v) \<longrightarrow> definition t' = v) \<and>
     (\<forall>v. upd_category u = Some (Some v) \<longrightarrow> category t' = Some v) \<and>
     (\<forall>v. upd_examples u = Some (Some v) \<longrightarrow> examples t' = Some v) \<and>
     (\<forall>v. upd_related_terms u = Some (Some v) \<longrightarrow> related_terms t' = Some v) \<and>
     (\<forall>v. upd_source u = Some (Some v) \<longrightarrow> source t' = Some v) \<and>
     (upd_title u = None \<longrightarrow> title t' = title t) \<and>
     (upd_definition u = None \<longrightarrow> definition t' = definition t) \<and>
     (upd_category u = None \<longrightarrow> category t' = category t) \<and>
     (upd_examples u = None \<longrightarrow> examples t' = examples t) \<and>
     (upd_related_terms u = None \<longrightarrow> related_terms t' = related_terms t) \<and>
     (upd_source u = None \<longrightarrow> source t' = source t) \<and>
     term_id t' = term_id t \<and> created_at t' = created_at t \<and>
     updated_at t' = clock w (ticks w) \<and>
     (u = no_update \<longrightarrow> t' = t\<lparr>updated_at := clock w (ticks w)\<rparr>)"
proof -
  from get_by_id_index [OF assms] obtain i where
    i: "index_of tid (glossary db) = Some i" "glossary db ! i = t" by blast
  define t' where "t' = (apply_update u t)\<lparr>updated_at := clock w (ticks w)\<rparr>"
  from update_found [OF i(1), where u = u and w = w and dump = dump] i(2) obtain r w' where
    u: "update dump tid u db w = (r, db\<lparr>glossary := (glossary db)[i := t']\<rparr>, w')"
       "faults w (writes w) = Written \<longrightarrow> r = Inr (Some t')"
       "get_by_id (db\<lparr>glossary := (glossary db)[i := t']\<rparr>) tid = Some t'"
    unfolding t'_def by blast
  have f: "\<forall>v. upd_title u = Some (Some v) \<longrightarrow> title t' = v"
     "\<forall>v. upd_definition u = Some (Some v) \<longrightarrow> definition t' = v"
     "\<forall>v. upd_category u = Some (Some v) \<longrightarrow> category t' = Some v"
     "\<forall>v. upd_examples u = Some (Some v) \<longrightarrow> examples t' = Some v"
     "\<forall>v. upd_related_terms u = Some (Some v) \<longrightarrow> related_terms t' = Some v"
     "\<forall>v. upd_source u = Some (Some v) \<longrightarrow> source t' = Some v"
     "upd_title u = None \<longrightarrow> title t' = title t"
     "upd_definition u = None \<longrightarrow> definition t' = definition t"
     "upd_category u = None \<longrightarrow> category t' = category t"
     "upd_examples u = None \<longrightarrow> examples t' = examples t"
     "upd_related_terms u = None \<longrightarrow> related_terms t' = related_terms t"
     "upd_source u = None \<longrightarrow> source t' = source t"
     "term_id t' = term_id t" "created_at t' = created_at t"
     "updated_at t' = clock w (ticks w)"
     "u = no_update \<longrightarrow> t' = t\<lparr>updated_at := clock w (ticks w)\<rparr>"
    by (simp_all add: t'_def apply_update_def no_update_def)
  show ?thesis
    by (rule exI [of _ r], rule exI [of _ "db\<lparr>glossary := (glossary db)[i := t']\<rparr>"],
        rule exI [of _ w'], rule exI [of _ t'])
       (use u f in simp)
qed

theorem update_spec_witness:
  "get_by_id demo_db 1 = Some demo_term \<and>
   faults demo_world (writes demo_world) = Written \<and>
   upd_title retitle_update = Some (Some (lit ''Oracle service'')) \<and>
   upd_source retitle_update = None \<and>
   (\<exists>r db' w' t'.
      update demo_dump 1 retitle_update demo_db demo_world = (r, db', w') \<and>
      get_by_id db' 1 = Some t' \<and> r = Inr (Some t') \<and>
      title t' = (lit ''Oracle service'') \<and> source t' = Some (lit ''wiki'') \<and>
      created_at t' = (lit ''2024-01-01T00:00:00'') \<and> updated_at t' = (lit ''2024-01-01T00:00:01''))"
proof -
  have h: "get_by_id demo_db 1 = Some demo_term"
    by (simp add: get_by_id_def demo_db_def demo_term_def)
  have k: "faults demo_world (writes demo_world) = Written"
          "upd_title retitle_update = Some (Some (lit ''Oracle service''))"
          "upd_source retitle_update = None"
          "clock demo_world (ticks demo_world) = (lit ''2024-01-01T00:00:01'')"
          "source demo_term = Some (lit ''wiki'')" "created_at demo_term = (lit ''2024-01-01T00:00:00'')"
    by (simp_all add: demo_world_def retitle_update_def no_update_def demo_clock_def demo_term_def)
  from update_spec [OF h, of demo_dump retitle_update demo_world]
  obtain r db' w' t' where
    u: "update demo_dump 1 retitle_update demo_db demo_world = (r, db', w')"
       "get_by_id db' 1 = Some t'"
       "faults demo_world (writes demo_world) = Written \<longrightarrow> r = Inr (Some t')"
       "\<forall>v. upd_title retitle_update = Some (Some v) \<longrightarrow> title t' = v"
       "upd_source retitle_update = None \<longrightarrow> source t' = source demo_term"
       "created_at t' = created_at demo_term"
       "updated_at t' = clock demo_world (ticks demo_world)"
    by (elim exE conjE) (rule that; assumption)
  from u k have "update demo_dump 1 retitle_update demo_db demo_world = (r, db', w') \<and>
      get_by_id db' 1 = Some t' \<and> r = Inr (Some t') \<and>
      title t' = (lit ''Oracle service'') \<and> source t' = Some (lit ''wiki'') \<and>
      created_at t' = (lit ''2024-01-01T00:00:00'') \<and> updated_at t' = (lit ''2024-01-01T00:00:01'')"
    by simp
  with h k show ?thesis by blast
qed

text \<open>
  Claim C10. A field that the partial update sets to null is ignored: after \<open>update\<close>
  (whether or not the write succeeds) the record stored under the id has, for every such
  field, the value it had before. So no nullable field that holds a value can become
  null through \<open>update\<close>.
\<close>

theorem update_null_ignored:
  assumes "get_by_id db tid = Some t" and "update dump tid u db w = (r, db', w')"
  shows "\<exists>t'. get_by_id db' tid = Some t' \<and>
     (upd_title u = Some None \<longrightarrow> title t' = title t) \<and>
     (upd_definition u = Some None \<longrightarrow> definition t' = definition t) \<and>
     (upd_category u = Some None \<longrightarrow> category t' = category t) \<and>
     (upd_examples u = Some None \<longrightarrow> examples t' = examples t) \<and>
     (upd_related_terms u = Some None \<longrightarrow> related_terms t' = related_terms t) \<and>
     (upd_source u = Some None \<longrightarrow> source t' = source t) \<and>
     (category t \<noteq> None \<longrightarrow> category t' \<noteq> None) \<and>
     (examples t \<noteq> None \<longrightarrow> examples t' \<noteq> None) \<and>
     (related_terms t \<noteq> None \<longrightarrow> related_terms t' \<noteq> None) \<and>
     (source t \<noteq> None \<longrightarrow> source t' \<noteq> None)"
proof -
  from get_by_id_index [OF assms(1)] obtain i where
    i: "index_of tid (glossary db) = Some i" "glossary db ! i = t" by blast
  define t' where "t' = (apply_update u t)\<lparr>updated_at := clock w (ticks w)\<rparr>"
  from update_found [OF i(1), where u = u and w = w and dump = dump] i(2) assms(2) have
    g: "get_by_id db' tid = Some t'"
    unfolding t'_def by auto
  have f: "upd_title u = Some None \<longrightarrow> title t' = title t"
     "upd_definition u = Some None \<longrightarrow> definition t' = definition t"
     "upd_category u = Some None \<longrightarrow> category t' = category t"
     "upd_examples u = Some None \<longrightarrow> examples t' = examples t"
     "upd_related_terms u = Some None \<longrightarrow> related_terms t' = related_terms t"
     "upd_source u = Some None \<longrightarrow> source t' = source t"
    by (simp_all add: t'_def apply_update_def)
  have h: "category t \<noteq> None \<longrightarrow> category t' \<noteq> None"
     "examples t \<noteq> None \<longrightarrow> examples t' \<noteq> None"
     "related_terms t \<noteq> None \<longrightarrow> related_terms t' \<noteq> None"
     "source t \<noteq> None \<longrightarrow> source t' \<noteq> None"
    by (simp_all add: t'_def apply_update_def assign_keeps_value)
  show ?thesis
    by (rule exI [of _ t']) (use g f h in simp)
qed

theorem update_null_ignored_witness:
  "get_by_id demo_db 1 = Some demo_term \<and>
   upd_source null_source_update = Some None \<and> source demo_term \<noteq> None \<and>
   (\<exists>t'. get_by_id (fst (snd (update demo_dump 1 null_source_update demo_db demo_world))) 1 =
            Some t' \<and> source t' = Some (lit ''wiki''))"
proof -
  have h: "get_by_id demo_db 1 = Some demo_term"
    by (simp add: get_by_id_def demo_db_def demo_term_def)
  have k: "upd_source null_source_update = Some None" "source demo_term = Some (lit ''wiki'')"
    by (simp_all add: null_source_update_def no_update_def demo_term_def)
  obtain r db' w' where
    u: "update demo_dump 1 null_source_update demo_db demo_world = (r, db', w')"
    by (cases "update demo_dump 1 null_source_update demo_db demo_world") blast
  from update_null_ignored [OF h u] k obtain t' where
    "get_by_id db' 1 = Some t'" "source t' = Some (lit ''wiki'')"
    by auto
  with h k u show ?thesis by auto
qed

section \<open>Search\<close>





section \<open>Pagination\<close>

lemma take_min_length: "take (min (length ys) k) ys = take k ys"
  by (cases "k \<le> length ys") (simp_all add: min_def)

lemma slice_nonneg:
  assumes "0 \<le> i" "0 \<le> n"
  shows "py_slice xs i (i + n) = take (nat n) (drop (nat i) xs)"
proof (cases "nat i \<le> length xs")
  case True
  have a: "slice_index (length xs) i = nat i"
    using assms True by (simp add: slice_index_def)
  have b: "slice_index (length xs) (i + n) = min (length xs) (nat i + nat n)"
    using assms by (simp add: slice_index_def nat_add_distrib)
  have "min (length xs) (nat i + nat n) - nat i = min (length (drop (nat i) xs)) (nat n)"
    using True by (simp add: min_def)
  then show ?thesis
    by (simp only: py_slice_def Let_def a b take_min_length)
next
  case False
  then show ?thesis
    using assms by (simp add: py_slice_def slice_index_def Let_def)
qed

text \<open>
  Claim C8. For \<open>skip \<ge> 0\<close> and \<open>limit\<close> between 1 and 1000 the list handler returns the
  total number of records, the skip and the limit it applied, and the slice of the
  collection that starts at index \<open>skip\<close> and has at most \<open>limit\<close> items. Over 25 records,
  skip 0 with limit 10 gives 10 items and total 25, and skip 20 with limit 10 gives 5
  items.
\<close>

theorem get_all_terms_spec:
  "(0 \<le> skip \<and> 1 \<le> limit \<and> limit \<le> 1000 \<longrightarrow>
      get_all_terms db skip limit =
        Inr \<lparr>page_total = length (get_all db), page_skip = skip, page_limit = limit,
             page_items = take (nat limit) (drop (nat skip) (get_all db))\<rparr>) \<and>
   (length (get_all db) = 25 \<longrightarrow>
      (\<exists>p. get_all_terms db 0 10 = Inr p \<and> length (page_items p) = 10 \<and> page_total p = 25) \<and>
      (\<exists>p. get_all_terms db 20 10 = Inr p \<and> length (page_items p) = 5))"
proof (intro conjI impI)
  assume a: "0 \<le> skip \<and> 1 \<le> limit \<and> limit \<le> 1000"
  then have "py_slice (get_all db) skip (skip + limit) =
               take (nat limit) (drop (nat skip) (get_all db))"
    by (intro slice_nonneg) auto
  with a show "get_all_terms db skip limit =
        Inr \<lparr>page_total = length (get_all db), page_skip = skip, page_limit = limit,
             page_items = take (nat limit) (drop (nat skip) (get_all db))\<rparr>"
    by (simp add: get_all_terms_def Let_def)
next
  assume l: "length (get_all db) = 25"
  have "py_slice (get_all db) 0 (0 + 10) = take (nat 10) (drop (nat 0) (get_all db))"
    by (intro slice_nonneg) auto
  with l show "\<exists>p. get_all_terms db 0 10 = Inr p \<and> length (page_items p) = 10 \<and> page_total p = 25"
    by (simp add: get_all_terms_def Let_def)
next
  assume l: "length (get_all db) = 25"
  have "py_slice (get_all db) 20 (20 + 10) = take (nat 10) (drop (nat 20) (get_all db))"
    by (intro slice_nonneg) auto
  with l show "\<exists>p. get_all_terms db 20 10 = Inr p \<and> length (page_items p) = 5"
    by (simp add: get_all_terms_def Let_def)
qed

theorem get_all_terms_spec_witness:
  "(0 :: int) \<le> 20 \<and> (1 :: int) \<le> 10 \<and> (10 :: int) \<le> 1000 \<and>
   length (get_all demo_db25) = 25 \<and>
   get_all_terms demo_db25 20 10 =
     Inr \<lparr>page_total = 25, page_skip = 20, page_limit = 10,
          page_items = drop 20 (get_all demo_db25)\<rparr> \<and>
   (\<exists>p. get_all_terms demo_db25 0 10 = Inr p \<and> length (page_items p) = 10 \<and> page_total p = 25) \<and>
   (\<exists>p. get_all_terms demo_db25 20 10 = Inr p \<and> length (page_items p) = 5)"
proof -
  have l: "length (get_all demo_db25) = 25"
    by (simp add: get_all_def demo_db25_def)
  then have g: "take (nat 10) (drop (nat 20) (get_all demo_db25)) = drop 20 (get_all demo_db25)"
    by simp
  from get_all_terms_spec [of 20 10 demo_db25] l g show ?thesis by simp
qed

section \<open>Effects of the mutating calls\<close>

text \<open>What each mutating call does to the store and to the world.\<close>

lemma create_effect:
  assumes "create dump term_data db w = (r, db', w')"
  shows "\<exists>nt. glossary db' = glossary db @ [nt] \<and> term_id nt = next_id db \<and>
           created_at nt = clock w (ticks w) \<and> updated_at nt = clock w (Suc (ticks w)) \<and>
           next_id db' = next_id db + 1 \<and> filepath db' = filepath db \<and>
           clock w' = clock w \<and> ticks w' = Suc (Suc (ticks w)) \<and>
           (faults w (writes w) = Written \<longrightarrow>
              r = Inr nt \<and> files w' (filepath db') = Some (dump (glossary db'))) \<and>
           (faults w (writes w) \<noteq> Written \<longrightarrow> r = Inl OSError)"
  using assms
  by (cases "faults w (writes w)")
     (auto simp: create_def now_def save_data_def Let_def)

lemma update_effect:
  assumes "update dump tid u db w = (r, db', w')"
  shows "(index_of tid (glossary db) = None \<and> r = Inr None \<and> db' = db \<and> w' = w) \<or>
         (\<exists>i. index_of tid (glossary db) = Some i \<and>
            glossary db' =
              (glossary db)[i := (apply_update u (glossary db ! i))\<lparr>updated_at := clock w (ticks w)\<rparr>] \<and>
            next_id db' = next_id db \<and> filepath db' = filepath db \<and>
            clock w' = clock w \<and> ticks w' = Suc (ticks w) \<and>
            (faults w (writes w) = Written \<longrightarrow>
               r = Inr (Some ((apply_update u (glossary db ! i))\<lparr>updated_at := clock w (ticks w)\<rparr>)) \<and>
               files w' (filepath db') = Some (dump (glossary db'))) \<and>
            (faults w (writes w) \<noteq> Written \<longrightarrow> r = Inl OSError))"
proof (cases "index_of tid (glossary db)")
  case None
  with assms show ?thesis by (simp add: update_def)
next
  case (Some i)
  with assms show ?thesis
    by (cases "faults w (writes w)")
       (auto simp: update_def now_def save_data_def Let_def)
qed

lemma delete_effect:
  assumes "delete dump tid db w = (r, db', w')"
  shows "(index_of tid (glossary db) = None \<and> r = Inr False \<and> db' = db \<and> w' = w) \<or>
         (\<exists>i. index_of tid (glossary db) = Some i \<and>
            glossary db' = pop i (glossary db) \<and>
            next_id db' = next_id db \<and> filepath db' = filepath db \<and>
            clock w' = clock w \<and> ticks w' = ticks w \<and>
            (faults w (writes w) = Written \<longrightarrow>
               r = Inr True \<and> files w' (filepath db') = Some (dump (glossary db'))) \<and>
            (faults w (writes w) \<noteq> Written \<longrightarrow> r = Inl OSError))"
proof (cases "index_of tid (glossary db)")
  case None
  with assms show ?thesis by (simp add: delete_def)
next
  case (Some i)
  with assms show ?thesis
    by (cases "faults w (writes w)")
       (auto simp: delete_def save_data_def Let_def)
qed

lemma step_effect:
  assumes "step dump rq db w = (r, db', w')"
  shows "(\<exists>td r0. rq = Create td \<and> create dump td db w = (r0, db', w') \<and> r = map_sum id Created r0) \<or>
         (\<exists>tid u r0. rq = Update tid u \<and> update dump tid u db w = (r0, db', w') \<and> r = map_sum id Updated r0) \<or>
         (\<exists>tid r0. rq = Delete tid \<and> delete dump tid db w = (r0, db', w') \<and> r = map_sum id Deleted r0)"
  using assms by (cases rq) (auto simp: step_def split: prod.splits)

lemma set_pop_subset: "set (pop i g) \<subseteq> set g"
  by (auto simp: pop_def dest: in_set_takeD in_set_dropD)

lemma distinct_remove_nth:
  assumes "distinct xs"
  shows "distinct (take i xs @ drop (Suc i) xs)"
proof (cases "i < length xs")
  case True
  then have "xs = take i xs @ xs ! i # drop (Suc i) xs" by (rule id_take_nth_drop)
  with assms have "distinct (take i xs @ xs ! i # drop (Suc i) xs)" by simp
  then show ?thesis by auto
next
  case False
  with assms show ?thesis by simp
qed

lemma distinct_ids_pop:
  assumes "distinct (map term_id g)"
  shows "distinct (map term_id (pop i g))"
proof -
  have "map term_id (pop i g) = take i (map term_id g) @ drop (Suc i) (map term_id g)"
    by (simp add: pop_def take_map drop_map)
  with distinct_remove_nth [OF assms, of i] show ?thesis by simp
qed

section \<open>Write failures\<close>

text \<open>
  Claim C4. When the write of the backing file fails, \<open>create\<close> raises the write
  error, and so do \<open>update\<close> and \<open>delete\<close> on an id of the collection (the calls that
  reach the persistence step). Memory and disk never diverge silently: whenever a
  mutating call that starts with memory and disk in agreement returns without an error,
  memory and disk agree afterwards. (After a failed write the mutation stays in memory:
  the two differ, and the call has raised.)
\<close>

theorem write_failure_propagates:
  "(faults w (writes w) \<noteq> Written \<longrightarrow>
      (\<exists>db' w'. create dump term_data db w = (Inl OSError, db', w')) \<and>
      (tid \<in> term_id ` set (glossary db) \<longrightarrow>
         (\<exists>db' w'. update dump tid u db w = (Inl OSError, db', w')) \<and>
         (\<exists>db' w'. delete dump tid db w = (Inl OSError, db', w')))) \<and>
   (in_sync dump db w \<and> step dump rq db w = (Inr rs, db1, w1) \<longrightarrow> in_sync dump db1 w1)"
proof (intro conjI impI)
  assume f: "faults w (writes w) \<noteq> Written"
  obtain r db' w' where c: "create dump term_data db w = (r, db', w')"
    by (cases "create dump term_data db w") blast
  from create_effect [OF c] f have "r = Inl OSError" by blast
  with c show "\<exists>db' w'. create dump term_data db w = (Inl OSError, db', w')" by blast
next
  assume f: "faults w (writes w) \<noteq> Written" and p: "tid \<in> term_id ` set (glossary db)"
  from p have n: "index_of tid (glossary db) \<noteq> None" by (simp add: index_of_None)
  obtain r db' w' where c: "update dump tid u db w = (r, db', w')"
    by (cases "update dump tid u db w") blast
  from update_effect [OF c] f n have "r = Inl OSError" by blast
  with c show "\<exists>db' w'. update dump tid u db w = (Inl OSError, db', w')" by blast
next
  assume f: "faults w (writes w) \<noteq> Written" and p: "tid \<in> term_id ` set (glossary db)"
  from p have n: "index_of tid (glossary db) \<noteq> None" by (simp add: index_of_None)
  obtain r db' w' where c: "delete dump tid db w = (r, db', w')"
    by (cases "delete dump tid db w") blast
  from delete_effect [OF c] f n have "r = Inl OSError" by blast
  with c show "\<exists>db' w'. delete dump tid db w = (Inl OSError, db', w')" by blast
next
  assume a: "in_sync dump db w \<and> step dump rq db w = (Inr rs, db1, w1)"
  show "in_sync dump db1 w1"
  proof (cases rq)
    case (Create term_data)
    with a obtain r where c: "create dump term_data db w = (r, db1, w1)" "map_sum id Created r = Inr rs"
      by (auto simp: step_def split: prod.splits)
    from c(2) have "r \<noteq> Inl OSError" by auto
    with create_effect [OF c(1)] show ?thesis by (auto simp: in_sync_def)
  next
    case (Update tid u)
    with a obtain r where c: "update dump tid u db w = (r, db1, w1)" "map_sum id Updated r = Inr rs"
      by (auto simp: step_def split: prod.splits)
    from c(2) have "r \<noteq> Inl OSError" by auto
    with update_effect [OF c(1)] a show ?thesis by (auto simp: in_sync_def)
  next
    case (Delete tid)
    with a obtain r where c: "delete dump tid db w = (r, db1, w1)" "map_sum id Deleted r = Inr rs"
      by (auto simp: step_def split: prod.splits)
    from c(2) have "r \<noteq> Inl OSError" by auto
    with delete_effect [OF c(1)] a show ?thesis by (auto simp: in_sync_def)
  qed
qed

theorem write_failure_propagates_witness:
  "faults faulty_world (writes faulty_world) \<noteq> Written \<and>
   1 \<in> term_id ` set (glossary demo_db) \<and>
   (\<exists>db' w'. create demo_dump demo_create demo_db faulty_world = (Inl OSError, db', w')) \<and>
   (\<exists>db' w'. update demo_dump 1 retitle_update demo_db faulty_world = (Inl OSError, db', w')) \<and>
   (\<exists>db' w'. delete demo_dump 1 demo_db faulty_world = (Inl OSError, db', w')) \<and>
   in_sync demo_dump demo_db synced_world \<and>
   fst (step demo_dump (Delete 1) demo_db synced_world) = Inr (Deleted True) \<and>
   in_sync demo_dump (fst (snd (step demo_dump (Delete 1) demo_db synced_world)))
     (snd (snd (step demo_dump (Delete 1) demo_db synced_world)))"
proof -
  have h: "faults faulty_world (writes faulty_world) \<noteq> Written"
          "1 \<in> term_id ` set (glossary demo_db)"
    by (simp_all add: faulty_world_def demo_db_def demo_term_def)
  have i: "in_sync demo_dump demo_db synced_world"
    by (simp add: in_sync_def demo_dump_def demo_db_def demo_term_def synced_world_def)
  have r: "fst (step demo_dump (Delete 1) demo_db synced_world) = Inr (Deleted True)"
    by (simp add: step_def delete_def save_data_def Let_def demo_db_def demo_term_def
        synced_world_def)
  then have e: "step demo_dump (Delete 1) demo_db synced_world =
      (Inr (Deleted True), fst (snd (step demo_dump (Delete 1) demo_db synced_world)),
       snd (snd (step demo_dump (Delete 1) demo_db synced_world)))"
    by (metis prod.collapse)
  from write_failure_propagates [of faulty_world demo_dump demo_create demo_db 1
      retitle_update] h
  have a: "(\<exists>db' w'. create demo_dump demo_create demo_db faulty_world = (Inl OSError, db', w')) \<and>
     (\<exists>db' w'. update demo_dump 1 retitle_update demo_db faulty_world = (Inl OSError, db', w')) \<and>
     (\<exists>db' w'. delete demo_dump 1 demo_db faulty_world = (Inl OSError, db', w'))"
    by blast
  from write_failure_propagates [of synced_world demo_dump demo_create demo_db 1
      retitle_update "Delete 1" "Deleted True"
      "fst (snd (step demo_dump (Delete 1) demo_db synced_world))"
      "snd (snd (step demo_dump (Delete 1) demo_db synced_world))"] i e
  have b: "in_sync demo_dump (fst (snd (step demo_dump (Delete 1) demo_db synced_world)))
     (snd (snd (step demo_dump (Delete 1) demo_db synced_world)))"
    by blast
  from h i r a b show ?thesis by blast
qed

section \<open>Round trip through the backing file\<close>

text \<open>
  Claim C9. For every collection that the codec itself round-trips
  (\<^verbatim>\<open>json.load\<close> of the text that \<^verbatim>\<open>json.dump\<close> produced gives the collection back), a
  successful save followed by loading the store from the same path gives a store with
  the same records: every field of every record, the timestamps included, is as it
  was. The next id is computed again from the records. In particular, after a
  successful \<open>create\<close>, a store loaded from the backing file holds the old records
  followed by the record that \<open>create\<close> returned.
\<close>

theorem persistence_round_trip:
  "(load (dump (glossary db)) = Some (glossary db) \<and> faults w (writes w) = Written \<longrightarrow>
      (\<exists>w'. save_data dump db w = (Inr (), w') \<and>
         load_data load (filepath db) w' = Inr (glossary db) \<and>
         init load (filepath db) w' =
           Inr \<lparr>filepath = filepath db, glossary = glossary db,
                next_id = get_next_id (glossary db)\<rparr>)) \<and>
   (create dump term_data db w = (Inr t, db', w') \<and>
    load (dump (glossary db')) = Some (glossary db') \<longrightarrow>
      glossary db' = glossary db @ [t] \<and>
      init load (filepath db) w' =
        Inr \<lparr>filepath = filepath db, glossary = glossary db @ [t],
             next_id = get_next_id (glossary db @ [t])\<rparr>)"
proof (rule conjI; rule impI)
  assume "load (dump (glossary db)) = Some (glossary db) \<and> faults w (writes w) = Written"
  then show "\<exists>w'. save_data dump db w = (Inr (), w') \<and>
         load_data load (filepath db) w' = Inr (glossary db) \<and>
         init load (filepath db) w' =
           Inr \<lparr>filepath = filepath db, glossary = glossary db,
                next_id = get_next_id (glossary db)\<rparr>"
    by (simp add: save_data_def load_data_def init_def)
next
  assume a: "create dump term_data db w = (Inr t, db', w') \<and>
    load (dump (glossary db')) = Some (glossary db')"
  then have c: "create dump term_data db w = (Inr t, db', w')" by simp
  from create_effect [OF c] obtain nt where
    n: "glossary db' = glossary db @ [nt]" "filepath db' = filepath db"
       "faults w (writes w) = Written \<longrightarrow>
          Inr t = (Inr nt :: error + glossary_term) \<and>
          files w' (filepath db') = Some (dump (glossary db'))"
       "faults w (writes w) \<noteq> Written \<longrightarrow> (Inr t :: error + glossary_term) = Inl OSError"
    by blast
  from n(4) have f: "faults w (writes w) = Written" by auto
  with n(3) have e: "t = nt" "files w' (filepath db') = Some (dump (glossary db'))" by auto
  from a e n(1,2)
  show "glossary db' = glossary db @ [t] \<and>
      init load (filepath db) w' =
        Inr \<lparr>filepath = filepath db, glossary = glossary db @ [t],
             next_id = get_next_id (glossary db @ [t])\<rparr>"
    by (simp add: init_def load_data_def)
qed

theorem persistence_round_trip_witness:
  "demo_load (demo_dump (glossary demo_db)) = Some (glossary demo_db) \<and>
   faults demo_world (writes demo_world) = Written \<and>
   (\<exists>w'. save_data demo_dump demo_db demo_world = (Inr (), w') \<and>
      load_data demo_load ''glossary_data.json'' w' = Inr [demo_term] \<and>
      init demo_load ''glossary_data.json'' w' = Inr demo_db) \<and>
   (\<exists>db' w'. create demo_dump demo_term_again empty_db fresh_world = (Inr demo_term, db', w') \<and>
      demo_load (demo_dump (glossary db')) = Some (glossary db') \<and>
      init demo_load ''glossary_data.json'' w' = Inr demo_db)"
proof -
  have h: "demo_load (demo_dump (glossary demo_db)) = Some (glossary demo_db) \<and>
           faults demo_world (writes demo_world) = Written"
    by (simp add: demo_load_def demo_dump_def demo_db_def demo_term_def demo_world_def)
  have e: "filepath demo_db = ''glossary_data.json''" "glossary demo_db = [demo_term]"
    "\<lparr>filepath = filepath demo_db, glossary = glossary demo_db,
      next_id = get_next_id (glossary demo_db)\<rparr> = demo_db"
    by (simp_all add: demo_db_def demo_term_def)
  from persistence_round_trip [where load = demo_load and dump = demo_dump and db = demo_db
      and w = demo_world] h e
  have a: "\<exists>w'. save_data demo_dump demo_db demo_world = (Inr (), w') \<and>
      load_data demo_load ''glossary_data.json'' w' = Inr [demo_term] \<and>
      init demo_load ''glossary_data.json'' w' = Inr demo_db"
    by simp
  define db' where "db' = fst (snd (create demo_dump demo_term_again empty_db fresh_world))"
  define w' where "w' = snd (snd (create demo_dump demo_term_again empty_db fresh_world))"
  have "fst (create demo_dump demo_term_again empty_db fresh_world) = Inr demo_term"
    by (simp add: create_def now_def save_data_def Let_def py_or_def demo_term_again_def
        empty_db_def demo_term_def fresh_world_def demo_clock_def)
  then have c: "create demo_dump demo_term_again empty_db fresh_world = (Inr demo_term, db', w')"
    unfolding db'_def w'_def by (metis prod.collapse)
  have g: "glossary db' = [demo_term]"
    unfolding db'_def
    by (simp add: create_def now_def save_data_def Let_def py_or_def demo_term_again_def
        empty_db_def demo_term_def fresh_world_def demo_clock_def)
  then have d: "demo_load (demo_dump (glossary db')) = Some (glossary db')"
    by (simp add: demo_load_def demo_dump_def demo_term_def)
  have k: "filepath empty_db = ''glossary_data.json''" "glossary empty_db = []"
    "\<lparr>filepath = ''glossary_data.json'', glossary = [demo_term],
      next_id = get_next_id [demo_term]\<rparr> = demo_db"
    by (simp_all add: empty_db_def demo_db_def demo_term_def)
  from persistence_round_trip [where load = demo_load and dump = demo_dump
      and db = empty_db and w = fresh_world
      and term_data = demo_term_again and t = demo_term and db' = db' and w' = w'] c d k
  have "init demo_load ''glossary_data.json'' w' = Inr demo_db"
    by simp
  with c d have b: "\<exists>db' w'. create demo_dump demo_term_again empty_db fresh_world =
        (Inr demo_term, db', w') \<and>
      demo_load (demo_dump (glossary db')) = Some (glossary db') \<and>
      init demo_load ''glossary_data.json'' w' = Inr demo_db"
    by blast
  from h a b show ?thesis by blast
qed

section \<open>Identifier allocation\<close>

lemma get_next_id_Max:
  "get_next_id g = (if g = [] then 1 else Max (term_id ` set g) + 1)"
proof (cases g)
  case Nil
  then show ?thesis by simp
next
  case (Cons t ts)
  have "fold max (map term_id ts) (term_id t) = Max (set (term_id t # map term_id ts))"
    by (simp only: Max.set_eq_fold)
  with Cons show ?thesis by simp
qed

lemma ids_below_get_next_id: "t \<in> set g \<Longrightarrow> term_id t < get_next_id g"
proof -
  assume t: "t \<in> set g"
  then have "g \<noteq> []" by auto
  moreover from t have "term_id t \<le> Max (term_id ` set g)" by simp
  ultimately show ?thesis by (simp add: get_next_id_Max)
qed

lemma init_ids_below:
  assumes "init load fp w = Inr db"
  shows "ids_below db \<and> next_id db = get_next_id (glossary db)"
  using assms
  by (auto simp: init_def ids_below_def ids_below_get_next_id split: sum.splits)

lemma created_ids_Cons:
  "created_ids (r # rs) =
     (case r of Inr (Created t) \<Rightarrow> term_id t # created_ids rs | _ \<Rightarrow> created_ids rs)"
  by (cases "(r # rs)" rule: created_ids.cases) auto

lemma updated_not_created [simp]: "map_sum id Updated r0 \<noteq> Inr (Created t)"
  by (cases r0) auto

lemma deleted_not_created [simp]: "map_sum id Deleted r0 \<noteq> Inr (Created t)"
  by (cases r0) auto

lemma created_iff [simp]: "map_sum id Created r0 = Inr (Created t) \<longleftrightarrow> r0 = Inr t"
  by (cases r0) auto

text \<open>One call keeps every id of the collection below the next id.\<close>

lemma step_ids:
  assumes "ids_below db" and "step dump rq db w = (r, db1, w1)"
  shows "ids_below db1 \<and> next_id db \<le> next_id db1 \<and>
         (\<forall>t. r = Inr (Created t) \<longrightarrow> term_id t = next_id db \<and> next_id db1 = next_id db + 1) \<and>
         (distinct (map term_id (glossary db)) \<longrightarrow> distinct (map term_id (glossary db1)))"
  using step_effect [OF assms(2)]
proof (elim disjE exE conjE)
  fix td r0
  assume c: "create dump td db w = (r0, db1, w1)" and r: "r = map_sum id Created r0"
  from create_effect [OF c] obtain nt where
    n: "glossary db1 = glossary db @ [nt]" "term_id nt = next_id db"
       "next_id db1 = next_id db + 1"
       "faults w (writes w) = Written \<longrightarrow> r0 = Inr nt"
       "faults w (writes w) \<noteq> Written \<longrightarrow> r0 = Inl OSError"
    by blast
  have "\<forall>t. r = Inr (Created t) \<longrightarrow> t = nt"
    using n(4,5) r by (cases "faults w (writes w) = Written") auto
  moreover have "term_id nt \<notin> term_id ` set (glossary db)"
    using assms(1) n(2) by (auto simp: ids_below_def)
  ultimately show ?thesis
    using assms(1) n(1,2,3) by (auto simp: ids_below_def)
next
  fix tid u r0
  assume c: "update dump tid u db w = (r0, db1, w1)" and r: "r = map_sum id Updated r0"
  from update_effect [OF c] show ?thesis
  proof (elim disjE exE conjE)
    assume "db1 = db"
    with assms(1) r show ?thesis by auto
  next
    fix i
    assume i: "index_of tid (glossary db) = Some i"
      and g: "glossary db1 =
        (glossary db)[i := (apply_update u (glossary db ! i))\<lparr>updated_at := clock w (ticks w)\<rparr>]"
      and n: "next_id db1 = next_id db"
    from index_of_Some [OF i] have "i < length (glossary db)" by simp
    then have m: "map term_id (glossary db1) = map term_id (glossary db)"
      by (simp add: g map_update list_update_same_conv)
    have "set (map term_id (glossary db1)) = set (map term_id (glossary db))"
      by (simp only: m)
    then have e: "term_id ` set (glossary db1) = term_id ` set (glossary db)"
      by simp
    have "ids_below db1"
      unfolding ids_below_def
    proof
      fix t
      assume "t \<in> set (glossary db1)"
      then have "term_id t \<in> term_id ` set (glossary db)"
        using e by blast
      then obtain t0 where "t0 \<in> set (glossary db)" "term_id t0 = term_id t"
        by auto
      with assms(1) n show "term_id t < next_id db1"
        by (auto simp: ids_below_def)
    qed
    with m n r show ?thesis by auto
  qed
next
  fix tid r0
  assume c: "delete dump tid db w = (r0, db1, w1)" and r: "r = map_sum id Deleted r0"
  from delete_effect [OF c] show ?thesis
  proof (elim disjE exE conjE)
    assume "db1 = db"
    with assms(1) r show ?thesis by auto
  next
    fix i
    assume g: "glossary db1 = pop i (glossary db)" and n: "next_id db1 = next_id db"
    from g n assms(1) set_pop_subset [of i "glossary db"] have "ids_below db1"
      by (auto simp: ids_below_def)
    with g n r distinct_ids_pop [of "glossary db" i] show ?thesis by auto
  qed
qed

lemma run_ids:
  assumes "ids_below db" and "run dump rqs db w = (rs, db', w')"
  shows "ids_below db' \<and> next_id db \<le> next_id db' \<and>
         sorted_wrt (<) (created_ids rs) \<and>
         (\<forall>i\<in>set (created_ids rs). next_id db \<le> i \<and> i < next_id db') \<and>
         (distinct (map term_id (glossary db)) \<longrightarrow> distinct (map term_id (glossary db')))"
  using assms
proof (induction rqs arbitrary: db w rs)
  case Nil
  then show ?case by simp
next
  case (Cons rq rqs)
  obtain r db1 w1 where s: "step dump rq db w = (r, db1, w1)"
    by (cases "step dump rq db w") blast
  obtain rs1 where t: "run dump rqs db1 w1 = (rs1, db', w')" and rs: "rs = r # rs1"
    using Cons.prems(2) s by (auto split: prod.splits)
  note st = step_ids [OF Cons.prems(1) s]
  from st have b1: "ids_below db1" by blast
  note ih = Cons.IH [OF b1 t]
  have le: "next_id db \<le> next_id db'" using st ih by linarith
  have rest: "\<forall>i\<in>set (created_ids rs1). next_id db \<le> i \<and> i < next_id db'"
    using st ih by fastforce
  have dist: "distinct (map term_id (glossary db)) \<longrightarrow> distinct (map term_id (glossary db'))"
    using st ih by blast
  show ?case
  proof (cases "\<exists>t. r = Inr (Created t)")
    case True
    then obtain t where r: "r = Inr (Created t)" by blast
    with st have i: "term_id t = next_id db" "next_id db1 = next_id db + 1" by auto
    have "created_ids rs = term_id t # created_ids rs1"
      using rs r by simp
    moreover have "\<forall>j\<in>set (created_ids rs1). term_id t < j"
      using ih i by fastforce
    moreover have "term_id t < next_id db'" using ih i by linarith
    ultimately show ?thesis using ih le rest dist i by auto
  next
    case False
    then have "created_ids rs = created_ids rs1"
      using rs by (auto simp: created_ids_Cons split: sum.splits response.splits)
    with ih le rest dist show ?thesis by auto
  qed
qed

text \<open>
  Claim C1. When the store is initialised, the next id is the greatest id of the loaded
  collection plus 1, or 1 when the collection is empty. In every sequence of calls that
  follows, the ids that \<open>create\<close> returns are strictly increasing, so each is greater
  than every id returned before it, and each is greater than every id of the loaded
  collection. If the ids of the loaded collection are distinct, the ids of the
  collection are distinct after the calls.
\<close>

theorem id_allocation:
  assumes "init load fp w0 = Inr db" and "run dump rqs db w = (rs, db', w')"
  shows "next_id db = (if glossary db = [] then 1 else Max (term_id ` set (glossary db)) + 1) \<and>
         sorted_wrt (<) (created_ids rs) \<and>
         (\<forall>i\<in>set (created_ids rs). \<forall>t\<in>set (glossary db). term_id t < i) \<and>
         (distinct (map term_id (glossary db)) \<longrightarrow> distinct (map term_id (glossary db')))"
proof -
  from init_ids_below [OF assms(1)] have b: "ids_below db"
    and n: "next_id db = get_next_id (glossary db)" by auto
  note r = run_ids [OF b assms(2)]
  have "\<forall>i\<in>set (created_ids rs). \<forall>t\<in>set (glossary db). term_id t < i"
    using r b unfolding ids_below_def by fastforce
  with r n show ?thesis by (simp add: get_next_id_Max)
qed

theorem id_allocation_witness:
  "init demo_load ''glossary_data.json'' synced_world = Inr demo_db \<and>
   next_id demo_db = Max (term_id ` set (glossary demo_db)) + 1 \<and>
   created_ids (fst (run demo_dump demo_requests demo_db demo_world)) = [2, 3] \<and>
   distinct (map term_id (glossary demo_db)) \<and>
   distinct (map term_id (glossary (fst (snd (run demo_dump demo_requests demo_db demo_world)))))"
proof -
  have h: "init demo_load ''glossary_data.json'' synced_world = Inr demo_db"
    by (simp add: init_def load_data_def synced_world_def demo_load_def demo_db_def demo_term_def)
  have r: "run demo_dump demo_requests demo_db demo_world =
      (fst (run demo_dump demo_requests demo_db demo_world),
       fst (snd (run demo_dump demo_requests demo_db demo_world)),
       snd (snd (run demo_dump demo_requests demo_db demo_world)))"
    by simp
  have d: "distinct (map term_id (glossary demo_db))" "glossary demo_db \<noteq> []"
    by (simp_all add: demo_db_def)
  have c: "created_ids (fst (run demo_dump demo_requests demo_db demo_world)) = [2, 3]"
    by (simp add: demo_requests_def step_def create_def update_def delete_def save_data_def
        now_def Let_def pop_def demo_db_def demo_term_def demo_world_def demo_create_def
        retitle_update_def no_update_def apply_update_def)
  from id_allocation [OF h r] d c h show ?thesis by simp
qed

section \<open>Timestamps\<close>

lemma in_set_updateD: "x \<in> set (xs[i := y]) \<Longrightarrow> x = y \<or> x \<in> set xs"
  using set_update_subset_insert [of xs i y] by auto

text \<open>One call keeps the timestamps in order, given a clock that does not run backwards.\<close>

lemma step_times:
  assumes "clock_monotone w" and "times_ok db w" and "step dump rq db w = (r, db1, w1)"
  shows "clock_monotone w1 \<and> times_ok db1 w1"
  using step_effect [OF assms(3)]
proof (elim disjE exE conjE)
  fix td r0
  assume c: "create dump td db w = (r0, db1, w1)"
  from create_effect [OF c] obtain nt where
    n: "glossary db1 = glossary db @ [nt]"
       "created_at nt = clock w (ticks w)" "updated_at nt = clock w (Suc (ticks w))"
       "clock w1 = clock w" "ticks w1 = Suc (Suc (ticks w))"
    by blast
  from assms(1) have m: "clock w (ticks w) \<le> clock w (Suc (ticks w))"
    "clock w (ticks w) \<le> clock w (Suc (Suc (ticks w)))"
    by (simp_all add: clock_monotone_def)
  have "times_ok db1 w1"
    unfolding times_ok_def
  proof
    fix t
    assume "t \<in> set (glossary db1)"
    then consider "t = nt" | "t \<in> set (glossary db)" using n(1) by auto
    then show "created_at t \<le> updated_at t \<and> created_at t \<le> clock w1 (ticks w1)"
    proof cases
      case 1
      with n m show ?thesis by simp
    next
      case 2
      with assms(2) have "created_at t \<le> updated_at t" "created_at t \<le> clock w (ticks w)"
        by (auto simp: times_ok_def)
      with m(2) n show ?thesis by (simp add: order_trans [of "created_at t" "clock w (ticks w)"])
    qed
  qed
  with assms(1) n(4) show ?thesis by (simp add: clock_monotone_def)
next
  fix tid u r0
  assume c: "update dump tid u db w = (r0, db1, w1)"
  from update_effect [OF c] show ?thesis
  proof (elim disjE exE conjE)
    assume "db1 = db" "w1 = w"
    with assms show ?thesis by simp
  next
    fix i
    assume i: "index_of tid (glossary db) = Some i"
      and g: "glossary db1 =
        (glossary db)[i := (apply_update u (glossary db ! i))\<lparr>updated_at := clock w (ticks w)\<rparr>]"
      and k: "clock w1 = clock w" "ticks w1 = Suc (ticks w)"
    from index_of_Some [OF i] have "glossary db ! i \<in> set (glossary db)" by simp
    with assms(2) have o: "created_at (glossary db ! i) \<le> clock w (ticks w)"
      by (auto simp: times_ok_def)
    from assms(1) have m: "clock w (ticks w) \<le> clock w (Suc (ticks w))"
      by (simp add: clock_monotone_def)
    have "times_ok db1 w1"
      unfolding times_ok_def
    proof
      fix t
      assume "t \<in> set (glossary db1)"
      then consider
        "t = (apply_update u (glossary db ! i))\<lparr>updated_at := clock w (ticks w)\<rparr>"
        | "t \<in> set (glossary db)"
        using g in_set_updateD by metis
      then show "created_at t \<le> updated_at t \<and> created_at t \<le> clock w1 (ticks w1)"
      proof cases
        case 1
        with o m k show ?thesis
          by (simp add: order_trans [of "created_at (glossary db ! i)" "clock w (ticks w)"])
      next
        case 2
        with assms(2) have "created_at t \<le> updated_at t" "created_at t \<le> clock w (ticks w)"
          by (auto simp: times_ok_def)
        with m k show ?thesis by (simp add: order_trans [of "created_at t" "clock w (ticks w)"])
      qed
    qed
    with assms(1) k(1) show ?thesis by (simp add: clock_monotone_def)
  qed
next
  fix tid r0
  assume c: "delete dump tid db w = (r0, db1, w1)"
  from delete_effect [OF c] show ?thesis
  proof (elim disjE exE conjE)
    assume "db1 = db" "w1 = w"
    with assms show ?thesis by simp
  next
    fix i
    assume g: "glossary db1 = pop i (glossary db)"
      and k: "clock w1 = clock w" "ticks w1 = ticks w"
    from g k assms(2) set_pop_subset [of i "glossary db"] have "times_ok db1 w1"
      by (auto simp: times_ok_def)
    with assms(1) k(1) show ?thesis by (simp add: clock_monotone_def)
  qed
qed

text \<open>A call leaves the clock as it is, and never lowers the tick count or the next id.\<close>

lemma step_world:
  assumes "step dump rq db w = (r, db1, w1)"
  shows "clock w1 = clock w \<and> ticks w \<le> ticks w1 \<and> next_id db \<le> next_id db1"
  using step_effect [OF assms]
proof (elim disjE exE conjE)
  fix td r0
  assume "create dump td db w = (r0, db1, w1)"
  from create_effect [OF this] show ?thesis by auto
next
  fix tid u r0
  assume "update dump tid u db w = (r0, db1, w1)"
  from update_effect [OF this] show ?thesis by auto
next
  fix tid r0
  assume "delete dump tid db w = (r0, db1, w1)"
  from delete_effect [OF this] show ?thesis by auto
qed

lemma run_world:
  assumes "run dump rqs db w = (rs, db', w')"
  shows "clock w' = clock w \<and> ticks w \<le> ticks w' \<and> next_id db \<le> next_id db'"
  using assms
proof (induction rqs arbitrary: db w rs)
  case Nil
  then show ?case by simp
next
  case (Cons rq rqs)
  obtain r db1 w1 where s: "step dump rq db w = (r, db1, w1)"
    by (cases "step dump rq db w") blast
  obtain rs1 where t: "run dump rqs db1 w1 = (rs1, db', w')"
    using Cons.prems s by (auto split: prod.splits)
  from step_world [OF s] Cons.IH [OF t] show ?case by auto
qed

text \<open>
  Every record after a call has the id and \<open>created_at\<close> of a record before the call, or
  it is the record that the call created: its \<open>created_at\<close> is the first reading of the
  clock that the call took and its id is the next id.
\<close>

lemma step_origin:
  assumes "step dump rq db w = (r, db1, w1)" and "t' \<in> set (glossary db1)"
  shows "(\<exists>t\<in>set (glossary db). term_id t = term_id t' \<and> created_at t = created_at t') \<or>
         (created_at t' = clock w (ticks w) \<and> Suc (ticks w) < ticks w1 \<and>
          term_id t' = next_id db)"
  using step_effect [OF assms(1)]
proof (elim disjE exE conjE)
  fix td r0
  assume c: "create dump td db w = (r0, db1, w1)"
  from create_effect [OF c] assms(2) show ?thesis by auto
next
  fix tid u r0
  assume c: "update dump tid u db w = (r0, db1, w1)"
  from update_effect [OF c] show ?thesis
  proof (elim disjE exE conjE)
    assume "db1 = db"
    with assms(2) show ?thesis by auto
  next
    fix i
    assume i: "index_of tid (glossary db) = Some i"
      and g: "glossary db1 =
        (glossary db)[i := (apply_update u (glossary db ! i))\<lparr>updated_at := clock w (ticks w)\<rparr>]"
    from index_of_Some [OF i] have o: "glossary db ! i \<in> set (glossary db)" by simp
    from assms(2) g consider
      "t' = (apply_update u (glossary db ! i))\<lparr>updated_at := clock w (ticks w)\<rparr>"
      | "t' \<in> set (glossary db)"
      using in_set_updateD by metis
    then show ?thesis
    proof cases
      case 1
      then have "term_id (glossary db ! i) = term_id t'"
        "created_at (glossary db ! i) = created_at t'" by simp_all
      with o show ?thesis by blast
    next
      case 2
      then show ?thesis by blast
    qed
  qed
next
  fix tid r0
  assume c: "delete dump tid db w = (r0, db1, w1)"
  from delete_effect [OF c] show ?thesis
  proof (elim disjE exE conjE)
    assume "db1 = db"
    with assms(2) show ?thesis by auto
  next
    fix i
    assume "glossary db1 = pop i (glossary db)"
    with assms(2) set_pop_subset [of i "glossary db"] have "t' \<in> set (glossary db)"
      by auto
    then show ?thesis by blast
  qed
qed

lemma run_origin:
  assumes "run dump rqs db w = (rs, db', w')" and "t' \<in> set (glossary db')"
  shows "(\<exists>t\<in>set (glossary db). term_id t = term_id t' \<and> created_at t = created_at t') \<or>
         (\<exists>k. ticks w \<le> k \<and> Suc k < ticks w' \<and> created_at t' = clock w k \<and>
              next_id db \<le> term_id t')"
  using assms
proof (induction rqs arbitrary: db w rs)
  case Nil
  then show ?case by auto
next
  case (Cons rq rqs)
  obtain r db1 w1 where s: "step dump rq db w = (r, db1, w1)"
    by (cases "step dump rq db w") blast
  obtain rs1 where t: "run dump rqs db1 w1 = (rs1, db', w')"
    using Cons.prems(1) s by (auto split: prod.splits)
  note sw = step_world [OF s] and rw = run_world [OF t]
  from Cons.IH [OF t Cons.prems(2)] show ?case
  proof
    assume "\<exists>t\<in>set (glossary db1). term_id t = term_id t' \<and> created_at t = created_at t'"
    then obtain t1 where t1: "t1 \<in> set (glossary db1)" "term_id t1 = term_id t'"
      "created_at t1 = created_at t'" by blast
    from step_origin [OF s t1(1)] show ?thesis
    proof
      assume "\<exists>t\<in>set (glossary db). term_id t = term_id t1 \<and> created_at t = created_at t1"
      with t1 show ?thesis by auto
    next
      assume n: "created_at t1 = clock w (ticks w) \<and> Suc (ticks w) < ticks w1 \<and>
          term_id t1 = next_id db"
      with t1 rw have "ticks w \<le> ticks w \<and> Suc (ticks w) < ticks w' \<and>
          created_at t' = clock w (ticks w) \<and> next_id db \<le> term_id t'"
        by auto
      then show ?thesis by blast
    qed
  next
    assume "\<exists>k. ticks w1 \<le> k \<and> Suc k < ticks w' \<and> created_at t' = clock w1 k \<and>
              next_id db1 \<le> term_id t'"
    then obtain k where k: "ticks w1 \<le> k" "Suc k < ticks w'" "created_at t' = clock w1 k"
      "next_id db1 \<le> term_id t'" by blast
    with sw have "ticks w \<le> k \<and> Suc k < ticks w' \<and> created_at t' = clock w k \<and>
              next_id db \<le> term_id t'"
      by auto
    then show ?thesis by blast
  qed
qed

lemma run_times:
  assumes "clock_monotone w" and "times_ok db w" and "run dump rqs db w = (rs, db', w')"
  shows "times_ok db' w'"
  using assms
proof (induction rqs arbitrary: db w rs)
  case Nil
  then show ?case by simp
next
  case (Cons rq rqs)
  obtain r db1 w1 where s: "step dump rq db w = (r, db1, w1)"
    by (cases "step dump rq db w") blast
  obtain rs1 where t: "run dump rqs db1 w1 = (rs1, db', w')"
    using Cons.prems(3) s by (auto split: prod.splits)
  from step_times [OF Cons.prems(1,2) s]
  have a: "clock_monotone w1" "times_ok db1 w1" by blast+
  from Cons.IH [OF a t] show ?case .
qed


text \<open>
  Claim C5, as stated, fails in its last part. Nothing in the store keeps \<open>updated_at\<close>
  at or after \<open>created_at\<close>: both are readings of \<^verbatim>\<open>datetime.now()\<close>. A record created
  at 02:30 and updated after the clock was set back has \<open>updated_at\<close> before
  \<open>created_at\<close>. And with a clock that never runs backwards, a record of the loaded
  collection that is dated after the clock has \<open>updated_at\<close> before \<open>created_at\<close> once
  it is updated.
\<close>

theorem timestamps_counterexample:
  "glossary (fst (snd (run demo_dump [Create demo_term_again, Update 1 retitle_update]
      empty_db dst_world))) = [dst_term] \<and>
   \<not> created_at dst_term \<le> updated_at dst_term \<and>
   clock_monotone west_world \<and>
   glossary (fst (snd (run demo_dump [Update 1 retitle_update] demo_db west_world))) =
     [demo_term\<lparr>title := lit ''Oracle service'', updated_at := lit ''2023-12-31T18:00:00''\<rparr>] \<and>
   \<not> lit ''2024-01-01T00:00:00'' \<le> lit ''2023-12-31T18:00:00''"
  by (simp add: step_def create_def update_def save_data_def now_def Let_def py_or_def
      demo_term_again_def retitle_update_def no_update_def apply_update_def empty_db_def
      dst_world_def dst_clock_def dst_term_def demo_db_def demo_term_def west_world_def
      clock_monotone_def lit_def)

text \<open>
  Claim C5, amended. For every sequence of calls, every record of the collection
  afterwards either has the id and the \<open>created_at\<close> of a record of the starting
  collection, or was created by one of the calls: its \<open>created_at\<close> is a reading of the
  clock taken during the calls and its id is not below the starting next id. So
  \<open>created_at\<close> is set once, at creation, and never changed. A successful \<open>create\<close>
  returns and stores a record whose \<open>created_at\<close> and \<open>updated_at\<close> are the two readings
  of the clock that it takes, and a successful \<open>update\<close> returns and stores the record
  with its \<open>created_at\<close> kept and \<open>updated_at\<close> set to its reading of the clock. If the
  clock never runs backwards and every record of the starting collection has
  \<open>created_at\<close> no later than \<open>updated_at\<close> and no later than the clock, every record
  afterwards has \<open>created_at \<le> updated_at\<close>.
\<close>

theorem timestamps_invariant:
  assumes "run dump rqs db w = (rs, db', w')"
  shows "(\<forall>t'\<in>set (glossary db').
            (\<exists>t\<in>set (glossary db). term_id t = term_id t' \<and> created_at t = created_at t') \<or>
            (\<exists>k. ticks w \<le> k \<and> Suc k < ticks w' \<and> created_at t' = clock w k \<and>
                 next_id db \<le> term_id t')) \<and>
         (clock_monotone w \<and> times_ok db w \<longrightarrow>
            (\<forall>t'\<in>set (glossary db'). created_at t' \<le> updated_at t')) \<and>
         (faults w (writes w) = Written \<longrightarrow>
            (\<exists>nt d1 w1. create dump td db w = (Inr nt, d1, w1) \<and>
               created_at nt = clock w (ticks w) \<and> updated_at nt = clock w (Suc (ticks w)) \<and>
               glossary d1 = glossary db @ [nt])) \<and>
         (get_by_id db tid = Some t \<and> faults w (writes w) = Written \<longrightarrow>
            (\<exists>nt d1 w1. update dump tid u db w = (Inr (Some nt), d1, w1) \<and>
               get_by_id d1 tid = Some nt \<and>
               created_at nt = created_at t \<and> updated_at nt = clock w (ticks w)))"
proof -
  have p1: "\<forall>t'\<in>set (glossary db').
            (\<exists>t\<in>set (glossary db). term_id t = term_id t' \<and> created_at t = created_at t') \<or>
            (\<exists>k. ticks w \<le> k \<and> Suc k < ticks w' \<and> created_at t' = clock w k \<and>
                 next_id db \<le> term_id t')"
    using run_origin [OF assms] by blast
  have p2: "clock_monotone w \<and> times_ok db w \<longrightarrow>
            (\<forall>t'\<in>set (glossary db'). created_at t' \<le> updated_at t')"
  proof
    assume "clock_monotone w \<and> times_ok db w"
    then have "times_ok db' w'" using run_times [OF _ _ assms] by blast
    then show "\<forall>t'\<in>set (glossary db'). created_at t' \<le> updated_at t'"
      by (simp add: times_ok_def)
  qed
  have p3: "faults w (writes w) = Written \<longrightarrow>
            (\<exists>nt d1 w1. create dump td db w = (Inr nt, d1, w1) \<and>
               created_at nt = clock w (ticks w) \<and> updated_at nt = clock w (Suc (ticks w)) \<and>
               glossary d1 = glossary db @ [nt])"
  proof
    assume f: "faults w (writes w) = Written"
    obtain r d1 w1 where c: "create dump td db w = (r, d1, w1)"
      by (cases "create dump td db w") blast
    from create_effect [OF c] f obtain nt where
      "r = Inr nt" "created_at nt = clock w (ticks w)" "updated_at nt = clock w (Suc (ticks w))"
      "glossary d1 = glossary db @ [nt]"
      by blast
    with c show "\<exists>nt d1 w1. create dump td db w = (Inr nt, d1, w1) \<and>
               created_at nt = clock w (ticks w) \<and> updated_at nt = clock w (Suc (ticks w)) \<and>
               glossary d1 = glossary db @ [nt]"
      by blast
  qed
  have p4: "get_by_id db tid = Some t \<and> faults w (writes w) = Written \<longrightarrow>
            (\<exists>nt d1 w1. update dump tid u db w = (Inr (Some nt), d1, w1) \<and>
               get_by_id d1 tid = Some nt \<and>
               created_at nt = created_at t \<and> updated_at nt = clock w (ticks w))"
  proof
    assume a: "get_by_id db tid = Some t \<and> faults w (writes w) = Written"
    then obtain i where i: "index_of tid (glossary db) = Some i" "glossary db ! i = t"
      using get_by_id_index by blast
    define nt where "nt = (apply_update u t)\<lparr>updated_at := clock w (ticks w)\<rparr>"
    from update_found [OF i(1), where u = u and w = w and dump = dump] i(2) a obtain w1 where
      "update dump tid u db w =
         (Inr (Some nt), db\<lparr>glossary := (glossary db)[i := nt]\<rparr>, w1)"
      "get_by_id (db\<lparr>glossary := (glossary db)[i := nt]\<rparr>) tid = Some nt"
      unfolding nt_def by auto
    moreover have "created_at nt = created_at t" "updated_at nt = clock w (ticks w)"
      by (simp_all add: nt_def)
    ultimately show "\<exists>nt d1 w1. update dump tid u db w = (Inr (Some nt), d1, w1) \<and>
               get_by_id d1 tid = Some nt \<and>
               created_at nt = created_at t \<and> updated_at nt = clock w (ticks w)"
      by blast
  qed
  show ?thesis
    by (rule conjI [OF p1 conjI [OF p2 conjI [OF p3 p4]]])
qed

theorem timestamps_invariant_witness:
  "clock_monotone fresh_world \<and> times_ok empty_db fresh_world \<and>
   faults fresh_world (writes fresh_world) = Written \<and>
   (\<exists>nt d1 w1. create demo_dump demo_term_again empty_db fresh_world = (Inr nt, d1, w1) \<and>
      created_at nt = lit ''2024-01-01T00:00:00'' \<and>
      updated_at nt = lit ''2024-01-01T00:00:00'' \<and> glossary d1 = [nt]) \<and>
   (\<exists>t'. glossary (fst (snd (run demo_dump [Create demo_term_again, Update 1 retitle_update]
              empty_db fresh_world))) = [t'] \<and>
      title t' = lit ''Oracle service'' \<and>
      created_at t' = lit ''2024-01-01T00:00:00'' \<and> created_at t' \<le> updated_at t') \<and>
   get_by_id demo_db 1 = Some demo_term \<and> faults demo_world (writes demo_world) = Written \<and>
   (\<exists>nt d1 w1. update demo_dump 1 retitle_update demo_db demo_world = (Inr (Some nt), d1, w1) \<and>
      get_by_id d1 1 = Some nt \<and>
      created_at nt = lit ''2024-01-01T00:00:00'' \<and>
      updated_at nt = lit ''2024-01-01T00:00:01'')"
proof -
  let ?rqs = "[Create demo_term_again, Update 1 retitle_update]"
  let ?res = "run demo_dump ?rqs empty_db fresh_world"
  have h: "clock_monotone fresh_world" "times_ok empty_db fresh_world"
          "faults fresh_world (writes fresh_world) = Written"
    by (simp_all add: clock_monotone_def times_ok_def fresh_world_def demo_clock_def
        empty_db_def lit_def)
  have r: "?res = (fst ?res, fst (snd ?res), snd (snd ?res))"
    by simp
  note th = timestamps_invariant [OF r, where td = demo_term_again]
  have c: "clock fresh_world (ticks fresh_world) = lit ''2024-01-01T00:00:00''"
          "clock fresh_world (Suc (ticks fresh_world)) = lit ''2024-01-01T00:00:00''"
          "glossary empty_db = []"
    by (simp_all add: fresh_world_def demo_clock_def empty_db_def)
  from th h(3) c
  have a: "\<exists>nt d1 w1. create demo_dump demo_term_again empty_db fresh_world = (Inr nt, d1, w1) \<and>
      created_at nt = lit ''2024-01-01T00:00:00'' \<and>
      updated_at nt = lit ''2024-01-01T00:00:00'' \<and> glossary d1 = [nt]"
    by simp
  obtain t' where
    g: "glossary (fst (snd ?res)) = [t']" "title t' = lit ''Oracle service''"
    by (simp add: step_def create_def update_def save_data_def now_def Let_def py_or_def
        demo_term_again_def retitle_update_def no_update_def apply_update_def empty_db_def
        fresh_world_def)
  then have i: "t' \<in> set (glossary (fst (snd ?res)))" by simp
  have k: "ticks (snd (snd ?res)) = 3" "ticks fresh_world = 0"
    by (simp_all add: step_def create_def update_def save_data_def now_def Let_def py_or_def
        demo_term_again_def retitle_update_def no_update_def apply_update_def empty_db_def
        fresh_world_def)
  from th have
    p: "\<forall>t'\<in>set (glossary (fst (snd ?res))).
            (\<exists>t\<in>set (glossary empty_db). term_id t = term_id t' \<and> created_at t = created_at t') \<or>
            (\<exists>k. ticks fresh_world \<le> k \<and> Suc k < ticks (snd (snd ?res)) \<and>
                 created_at t' = clock fresh_world k \<and> next_id empty_db \<le> term_id t')"
    and q: "clock_monotone fresh_world \<and> times_ok empty_db fresh_world \<longrightarrow>
            (\<forall>t'\<in>set (glossary (fst (snd ?res))). created_at t' \<le> updated_at t')"
    by blast+
  from p i c(3) k obtain j where "Suc j < 3" "created_at t' = clock fresh_world j"
    by auto
  then have e: "created_at t' = lit ''2024-01-01T00:00:00''"
    by (simp add: fresh_world_def demo_clock_def)
  from q h i have o: "created_at t' \<le> updated_at t'" by blast
  from g e o have b: "\<exists>t'. glossary (fst (snd ?res)) = [t'] \<and>
      title t' = lit ''Oracle service'' \<and>
      created_at t' = lit ''2024-01-01T00:00:00'' \<and> created_at t' \<le> updated_at t'"
    by blast
  have d: "get_by_id demo_db 1 = Some demo_term" "faults demo_world (writes demo_world) = Written"
          "created_at demo_term = lit ''2024-01-01T00:00:00''"
          "clock demo_world (ticks demo_world) = lit ''2024-01-01T00:00:01''"
    by (simp_all add: get_by_id_def demo_db_def demo_term_def demo_world_def demo_clock_def)
  have r2: "run demo_dump [] demo_db demo_world = ([], demo_db, demo_world)" by simp
  from timestamps_invariant [OF r2, where tid = 1 and t = demo_term and u = retitle_update] d
  have f: "\<exists>nt d1 w1. update demo_dump 1 retitle_update demo_db demo_world =
        (Inr (Some nt), d1, w1) \<and> get_by_id d1 1 = Some nt \<and>
      created_at nt = lit ''2024-01-01T00:00:00'' \<and>
      updated_at nt = lit ''2024-01-01T00:00:01''"
    by simp
  from h a b d(1,2) f show ?thesis by blast
qed

end
